theory Spec2Isabelle
  imports Complex_Main
begin

section \<open>JavaScript values used by the model\<close>

text \<open>
  An object property is absent, present with the value \<open>undefined\<close>, or present with a
  value. The difference matters for the object spread \<open>{...defaults, ...given}\<close>: an own
  property of \<open>given\<close> overrides the default even when its value is \<open>undefined\<close>, an
  absent one does not. A field that has been read is an \<open>option\<close>: \<open>None\<close> is
  \<open>undefined\<close>. Numbers are modelled as \<open>int\<close> (counts, sizes, timestamps) and
  \<open>real\<close> (the sampling rate and the random draw); \<open>NaN\<close> is not modelled.
\<close>

datatype 'a property = Absent | Undefined | Value 'a

definition spread :: "'a option \<Rightarrow> 'a property \<Rightarrow> 'a option" where
  "spread base p = (case p of Absent \<Rightarrow> base | Undefined \<Rightarrow> None | Value v \<Rightarrow> Some v)"

text \<open>\<open>p || d\<close> on a string property: absent, undefined and the empty string are falsy.\<close>

definition or_default :: "string property \<Rightarrow> string \<Rightarrow> string" where
  "or_default p d = (case p of Value v \<Rightarrow> (if v = [] then d else v) | _ \<Rightarrow> d)"

text \<open>Truthiness of an optional boolean and of an optional number.\<close>

definition truthy :: "bool option \<Rightarrow> bool" where
  "truthy b = (b = Some True)"

definition truthy_num :: "int option \<Rightarrow> bool" where
  "truthy_num n = (case n of None \<Rightarrow> False | Some k \<Rightarrow> k \<noteq> 0)"

text \<open>
  \<open>Array.prototype.slice(start)\<close>: a negative start counts from the end and is clamped
  at the beginning, a non-negative one is clamped at the length.
\<close>

definition slice_from :: "int \<Rightarrow> 'a list \<Rightarrow> 'a list" where
  "slice_from start xs =
     (let len = int (length xs);
          k = (if start < 0 then max (len + start) 0 else min start len)
      in drop (nat k) xs)"

text \<open>Decimal rendering of a number inside a template string.\<close>

fun string_of_nat :: "nat \<Rightarrow> string" where
  "string_of_nat n =
     (if n < 10 then [''0123456789'' ! n]
      else string_of_nat (n div 10) @ [''0123456789'' ! (n mod 10)])"

section \<open>CircularBuffer (src/utils/circular-buffer.ts)\<close>

datatype overflowStrategy = DiscardOldest | DiscardNewest | Error

datatype buffer_error = BufferOverflow

text \<open>
  The class fields. A slot of \<open>buffer\<close> holds \<open>null\<close> (\<open>None\<close>) or an item. The
  capacity is meant to be a positive integer: with capacity 0 the source computes
  \<open>x % 0 = NaN\<close>, which the model does not follow, so every theorem about the buffer
  is stated for a positive capacity, where all indices stay below the array length.
\<close>

record 'a CircularBuffer =
  cb_buffer :: "'a option list"
  cb_head :: nat
  cb_tail :: nat
  cb_size :: nat
  cb_capacity :: nat
  cb_overflowStrategy :: overflowStrategy
  cb_overflowCount :: nat

record CircularBufferOptions =
  opt_capacity :: nat
  opt_overflowStrategy :: overflowStrategy

definition new_CircularBuffer :: "CircularBufferOptions \<Rightarrow> 'a CircularBuffer" where
  "new_CircularBuffer options =
     \<lparr> cb_buffer = replicate (opt_capacity options) None,
       cb_head = 0, cb_tail = 0, cb_size = 0,
       cb_capacity = opt_capacity options,
       cb_overflowStrategy = opt_overflowStrategy options,
       cb_overflowCount = 0 \<rparr>"

definition dequeue :: "'a CircularBuffer \<Rightarrow> 'a option \<times> 'a CircularBuffer" where
  "dequeue b =
     (if cb_size b = 0 then (None, b)
      else
        let item = cb_buffer b ! cb_head b
        in (item,
            b\<lparr> cb_buffer := (cb_buffer b)[cb_head b := None],
               cb_head := (cb_head b + 1) mod cb_capacity b,
               cb_size := cb_size b - 1 \<rparr>))"

text \<open>The tail of \<open>push\<close>, after the overflow switch: store at the tail and advance it.\<close>

definition store_at_tail :: "'a \<Rightarrow> 'a CircularBuffer \<Rightarrow> 'a CircularBuffer" where
  "store_at_tail item b =
     b\<lparr> cb_buffer := (cb_buffer b)[cb_tail b := Some item],
        cb_tail := (cb_tail b + 1) mod cb_capacity b,
        cb_size := cb_size b + 1 \<rparr>"

text \<open>
  \<open>push\<close> returns what the method returns, or the thrown error, together with the
  buffer as the call leaves it.
\<close>

definition push :: "'a \<Rightarrow> 'a CircularBuffer \<Rightarrow> (buffer_error + bool) \<times> 'a CircularBuffer" where
  "push item b =
     (if cb_size b = cb_capacity b then
        (case cb_overflowStrategy b of
           DiscardOldest \<Rightarrow> (Inr True, store_at_tail item (snd (dequeue b)))
         | DiscardNewest \<Rightarrow> (Inr False, b\<lparr> cb_overflowCount := cb_overflowCount b + 1 \<rparr>)
         | Error \<Rightarrow> (Inl BufferOverflow, b))
      else (Inr True, store_at_tail item b))"

text \<open>
  The loop of \<open>getItems\<close>: \<open>k\<close> iterations remain, \<open>current\<close> is the slot to read
  and \<open>items\<close> the array built so far; a \<open>null\<close> slot is skipped.
\<close>

fun getItems_loop :: "'a CircularBuffer \<Rightarrow> 'a list \<Rightarrow> nat \<Rightarrow> nat \<Rightarrow> 'a list" where
  "getItems_loop b items current 0 = items"
| "getItems_loop b items current (Suc k) =
     getItems_loop b
       (case cb_buffer b ! current of None \<Rightarrow> items | Some item \<Rightarrow> items @ [item])
       ((current + 1) mod cb_capacity b) k"

definition getItems :: "'a CircularBuffer \<Rightarrow> 'a list" where
  "getItems b = (if cb_size b = 0 then [] else getItems_loop b [] (cb_head b) (cb_size b))"

definition clear :: "'a CircularBuffer \<Rightarrow> 'a CircularBuffer" where
  "clear b =
     b\<lparr> cb_buffer := replicate (length (cb_buffer b)) None,
        cb_head := 0, cb_tail := 0, cb_size := 0 \<rparr>"

definition drain :: "'a CircularBuffer \<Rightarrow> 'a list \<times> 'a CircularBuffer" where
  "drain b = (getItems b, clear b)"

text \<open>Pushing a sequence of items, one call after the other, ignoring the results.\<close>

definition push_all :: "'a list \<Rightarrow> 'a CircularBuffer \<Rightarrow> 'a CircularBuffer" where
  "push_all xs b = foldl (\<lambda>b x. snd (push x b)) b xs"

text \<open>
  The representation relation used in the proofs: the buffer \<open>b\<close> holds the sequence
  \<open>xs\<close>, oldest first, in the slots from \<open>head\<close> onwards, wrapping around.
\<close>

definition represents :: "'a CircularBuffer \<Rightarrow> 'a list \<Rightarrow> bool" where
  "represents b xs \<longleftrightarrow>
     0 < cb_capacity b \<and> length (cb_buffer b) = cb_capacity b \<and>
     cb_head b < cb_capacity b \<and> cb_size b = length xs \<and> cb_size b \<le> cb_capacity b \<and>
     cb_tail b = (cb_head b + cb_size b) mod cb_capacity b \<and>
     (\<forall>i < length xs. cb_buffer b ! ((cb_head b + i) mod cb_capacity b) = Some (xs ! i))"

section \<open>Sampling (src/utils/index.ts)\<close>

text \<open>\<open>shouldSampleEvent(rate)\<close>; the second argument is the value of \<open>Math.random()\<close>.\<close>

definition shouldSampleEvent :: "real \<Rightarrow> real \<Rightarrow> bool" where
  "shouldSampleEvent rate random =
     (if rate \<ge> 1 then True
      else if rate \<le> 0 then False
      else random \<le> rate)"

section \<open>Events and configuration (src/types.ts)\<close>

type_synonym environment_data = "(string \<times> string) list"

record error_info =
  err_message :: string
  err_code :: string

text \<open>
  \<open>GameAnalyticsEvent\<close> as it exists at run time: every field read from an event object
  may be \<open>undefined\<close>. The fields the store reads or writes are modelled one by one; the
  remaining optional payload (coordinates, duration, element data, game state, metadata) is
  carried unchanged in \<open>ev_rest\<close>.
\<close>

record event =
  ev_id :: "string option"
  ev_timestamp :: "int option"
  ev_type :: "string option"
  ev_gameId :: "string option"
  ev_playId :: "string option"
  ev_target :: "string option"
  ev_environmentData :: "environment_data option"
  ev_error :: "error_info option"
  ev_rest :: "(string \<times> string) list"

text \<open>\<open>Partial<GameAnalyticsEvent>\<close>, the argument of \<open>trackEvent\<close>.\<close>

record partial_event =
  p_id :: "string property"
  p_timestamp :: "int property"
  p_type :: "string property"
  p_gameId :: "string property"
  p_playId :: "string property"
  p_target :: "string property"
  p_environmentData :: "environment_data property"
  p_error :: "error_info property"
  p_rest :: "(string \<times> string) list"

datatype transformer_error = TransformerThrew string

text \<open>
  The configuration held by the store: the options the store's actions read. The
  per-channel switches of the DOM listeners, the throttling options and the logging
  switches other than \<open>debug\<close> do not influence any state change of the store and are
  left out. A user-supplied \<open>eventTransformer\<close> either returns an event or throws.
\<close>

record config =
  apiEndpoint :: string
  gameId :: string
  playId :: string
  batchSize :: "int option"
  flushInterval :: "int option"
  maxQueueSize :: "int option"
  trackErrors :: "bool option"
  sampleRate :: "real option"
  collectEnvironmentData :: "bool option"
  debug :: "bool option"
  respectDoNotTrack :: "bool option"
  consentRequired :: "bool option"
  eventTransformer :: "(event \<Rightarrow> transformer_error + event) option"

text \<open>\<open>GameAnalyticsOptions\<close>, the argument of \<open>initialize\<close>.\<close>

record options =
  o_apiEndpoint :: string
  o_gameId :: string
  o_playId :: string
  o_batchSize :: "int property"
  o_flushInterval :: "int property"
  o_maxQueueSize :: "int property"
  o_trackErrors :: "bool property"
  o_sampleRate :: "real property"
  o_collectEnvironmentData :: "bool property"
  o_debug :: "bool property"
  o_respectDoNotTrack :: "bool property"
  o_consentRequired :: "bool property"
  o_eventTransformer :: "(event \<Rightarrow> transformer_error + event) property"

section \<open>The store (src/store/analytics-store.ts)\<close>

record bufferInfo =
  bi_capacity :: nat
  bi_size :: nat
  bi_overflowCount :: nat

record networkStatus =
  isOnline :: bool
  lastConnectionType :: string

text \<open>What \<open>localStorage\<close> holds under a key: a serialised array of events, or anything else.\<close>

datatype stored = StoredEvents "event list" | StoredOther string

text \<open>
  The getter \<open>isTrackingAllowed\<close> is a computed property of the store: its value is
  computed when it is first read and kept until a reactive property that the computation
  read is assigned a different value. The computation always reads \<open>isEnabled\<close>; it
  reads \<open>config\<close> when tracking is enabled, and \<open>hasConsent\<close> when in addition
  consent is required. \<open>navigator\<close> and \<open>window\<close> are not reactive, so a change of
  the Do-Not-Track signal alone does not bring a new computation. The cache holds the
  value and which of \<open>config\<close> and \<open>hasConsent\<close> the computation read.
\<close>

record computed_cache =
  cc_value :: bool
  cc_tracks_config :: bool
  cc_tracks_hasConsent :: bool

text \<open>
  \<open>GameAnalyticsState\<close>, together with what the actions read and write beside it and
  what is therefore threaded through the model with the state: the browser's
  \<open>localStorage\<close>, the cache of the getter \<open>isTrackingAllowed\<close> (\<open>None\<close> while no
  value is kept), and the number of times \<open>shouldSampleEvent\<close> has called
  \<open>Math.random()\<close>.
\<close>

record state =
  events :: "event list"
  config :: config
  isEnabled :: bool
  isDebugMode :: bool
  hasConsent :: bool
  bufferInfo :: bufferInfo
  networkStatus :: networkStatus
  pendingFlush :: bool
  failedSubmissions :: nat
  lastFlushTime :: "int option"
  localStorage :: "string \<Rightarrow> stored option"
  isTrackingAllowed_cache :: "computed_cache option"
  samplingDraws :: nat

text \<open>
  What an action reads from its surroundings: the three Do-Not-Track properties,
  \<open>navigator.onLine\<close>, and the results of \<open>generateUUID()\<close>, \<open>Date.now()\<close> and
  \<open>getEnvironmentData()\<close>; \<open>random\<close> is the value \<open>Math.random()\<close> returns to
  \<open>shouldSampleEvent\<close> if that function gets as far as calling it.
\<close>

record env =
  navigator_doNotTrack :: "string option"
  window_doNotTrack :: "string option"
  navigator_msDoNotTrack :: "string option"
  navigator_onLine :: bool
  uuid :: string
  now :: int
  random :: real
  environmentData :: environment_data

text \<open>The request handed to \<open>fetch\<close>: endpoint, the two session headers, and the batch.\<close>

record submission =
  sub_endpoint :: string
  sub_gameId :: string
  sub_playId :: string
  sub_events :: "event list"

text \<open>How the request ends: a response with a status code, or a rejected promise.\<close>

datatype fetch_outcome = Response nat | NetworkError string

definition response_ok :: "nat \<Rightarrow> bool" where
  "response_ok status = (200 \<le> status \<and> status \<le> 299)"

definition STORAGE_KEY_EVENTS :: string where
  "STORAGE_KEY_EVENTS = ''vue3-game-analytics-events''"

definition STORAGE_KEY_CONFIG :: string where
  "STORAGE_KEY_CONFIG = ''vue3-game-analytics-config''"

definition API_SUBMISSION_FAILED :: string where
  "API_SUBMISSION_FAILED = ''API_SUBMISSION_FAILED''"

text \<open>The state's initial configuration: empty identifiers and \<open>DEFAULT_OPTIONS\<close>.\<close>

definition DEFAULT_CONFIG :: config where
  "DEFAULT_CONFIG =
     \<lparr> apiEndpoint = [], gameId = [], playId = [],
       batchSize = Some 50, flushInterval = Some 60000, maxQueueSize = Some 1000,
       trackErrors = Some True, sampleRate = Some 1, collectEnvironmentData = Some True,
       debug = Some False, respectDoNotTrack = Some True, consentRequired = Some True,
       eventTransformer = None \<rparr>"

definition BUFFER_CONFIG :: CircularBufferOptions where
  "BUFFER_CONFIG = \<lparr> opt_capacity = 1000, opt_overflowStrategy = DiscardOldest \<rparr>"

text \<open>The state a fresh store starts with, over whatever \<open>localStorage\<close> already holds.\<close>

definition initial_state :: "(string \<Rightarrow> stored option) \<Rightarrow> state" where
  "initial_state ls =
     \<lparr> events = [], config = DEFAULT_CONFIG,
       isEnabled = False, isDebugMode = False, hasConsent = False,
       bufferInfo = \<lparr> bi_capacity = opt_capacity BUFFER_CONFIG, bi_size = 0, bi_overflowCount = 0 \<rparr>,
       networkStatus = \<lparr> isOnline = True, lastConnectionType = ''unknown'' \<rparr>,
       pendingFlush = False, failedSubmissions = 0, lastFlushTime = None,
       localStorage = ls, isTrackingAllowed_cache = None, samplingDraws = 0 \<rparr>"

subsection \<open>Getters\<close>

definition doNotTrack :: "env \<Rightarrow> bool" where
  "doNotTrack e =
     (navigator_doNotTrack e = Some ''1'' \<or> window_doNotTrack e = Some ''1''
      \<or> navigator_msDoNotTrack e = Some ''1'')"

text \<open>The body of the getter \<open>isTrackingAllowed\<close>: one computation of its value.\<close>

definition isTrackingAllowed :: "env \<Rightarrow> state \<Rightarrow> bool" where
  "isTrackingAllowed e s =
     (if \<not> isEnabled s then False
      else if truthy (consentRequired (config s)) \<and> \<not> hasConsent s then False
      else if truthy (respectDoNotTrack (config s)) \<and> doNotTrack e then False
      else True)"

text \<open>
  Reading \<open>this.isTrackingAllowed\<close>: the kept value if there is one, otherwise a
  computation, whose value is kept together with what it read.
\<close>

definition read_isTrackingAllowed :: "env \<Rightarrow> state \<Rightarrow> bool \<times> state" where
  "read_isTrackingAllowed e s =
     (case isTrackingAllowed_cache s of
        Some cc \<Rightarrow> (cc_value cc, s)
      | None \<Rightarrow>
          (isTrackingAllowed e s,
           s\<lparr> isTrackingAllowed_cache :=
                Some \<lparr> cc_value = isTrackingAllowed e s,
                       cc_tracks_config = isEnabled s,
                       cc_tracks_hasConsent =
                         (isEnabled s \<and> truthy (consentRequired (config s))) \<rparr> \<rparr>))"

text \<open>
  Assignments to the three reactive properties the getter may have read. The kept value is
  dropped when the property was read by the computation and its value changes; the
  object assigned to \<open>config\<close> is always a new one.
\<close>

definition assign_isEnabled :: "bool \<Rightarrow> state \<Rightarrow> state" where
  "assign_isEnabled b s =
     s\<lparr> isEnabled := b,
        isTrackingAllowed_cache :=
          (if isEnabled s = b then isTrackingAllowed_cache s else None) \<rparr>"

definition assign_config :: "config \<Rightarrow> state \<Rightarrow> state" where
  "assign_config c s =
     s\<lparr> config := c,
        isTrackingAllowed_cache :=
          (case isTrackingAllowed_cache s of
             None \<Rightarrow> None
           | Some cc \<Rightarrow> if cc_tracks_config cc then None else Some cc) \<rparr>"

definition assign_hasConsent :: "bool \<Rightarrow> state \<Rightarrow> state" where
  "assign_hasConsent b s =
     s\<lparr> hasConsent := b,
        isTrackingAllowed_cache :=
          (case isTrackingAllowed_cache s of
             None \<Rightarrow> None
           | Some cc \<Rightarrow>
               if cc_tracks_hasConsent cc \<and> hasConsent s \<noteq> b then None else Some cc) \<rparr>"

definition eventCount :: "state \<Rightarrow> nat" where
  "eventCount s = length (events s)"

subsection \<open>Queue management actions\<close>

definition clearEvents :: "state \<Rightarrow> state" where
  "clearEvents s = s\<lparr> events := [], bufferInfo := (bufferInfo s)\<lparr> bi_size := 0 \<rparr> \<rparr>"

definition filterEvents :: "(event \<Rightarrow> bool) \<Rightarrow> state \<Rightarrow> state" where
  "filterEvents filterFn s =
     (let es = filter filterFn (events s)
      in s\<lparr> events := es, bufferInfo := (bufferInfo s)\<lparr> bi_size := length es \<rparr> \<rparr>)"

definition removeItem :: "string \<Rightarrow> state \<Rightarrow> state" where
  "removeItem key s = s\<lparr> localStorage := (localStorage s)(key := None) \<rparr>"

text \<open>
  \<open>persistToStorage\<close> swallows a failing \<open>setItem\<close> (quota exceeded); \<open>ok\<close> says whether
  the write went through. \<open>retrieveFromStorage\<close> yields \<open>null\<close> for a missing key.
\<close>

definition persistToStorage :: "bool \<Rightarrow> string \<Rightarrow> stored \<Rightarrow> state \<Rightarrow> state" where
  "persistToStorage ok key data s =
     (if ok then s\<lparr> localStorage := (localStorage s)(key \<mapsto> data) \<rparr> else s)"

definition retrieveFromStorage :: "string \<Rightarrow> state \<Rightarrow> stored option" where
  "retrieveFromStorage key s = localStorage s key"

definition saveEventsToStorage :: "bool \<Rightarrow> state \<Rightarrow> state" where
  "saveEventsToStorage ok s =
     (if length (events s) > 0
      then persistToStorage ok STORAGE_KEY_EVENTS (StoredEvents (events s)) s
      else s)"

definition setConsent :: "bool \<Rightarrow> state \<Rightarrow> state" where
  "setConsent consent s =
     (let s1 = assign_hasConsent consent s
      in if \<not> consent
         then removeItem STORAGE_KEY_CONFIG (removeItem STORAGE_KEY_EVENTS (clearEvents s1))
         else s1)"

definition setDebugMode :: "bool \<Rightarrow> state \<Rightarrow> state" where
  "setDebugMode enabled s = s\<lparr> isDebugMode := enabled \<rparr>"

subsection \<open>Flushing\<close>

text \<open>
  \<open>flushEvents\<close> is asynchronous. Its synchronous part runs up to the call of
  \<open>fetch\<close>: the guards, the flag, the snapshot, the request. It returns the state it
  leaves and the request, if one was made. The part after \<open>await\<close> is
  \<open>flushEvents_settle\<close> below.
\<close>

definition flushEvents :: "state \<Rightarrow> state \<times> submission option" where
  "flushEvents s =
     (if length (events s) = 0 \<or> pendingFlush s then (s, None)
      else if \<not> isOnline (networkStatus s) then (s, None)
      else
        let s1 = s\<lparr> pendingFlush := True \<rparr>;
            eventsToSend = events s1
        in (s1, Some \<lparr> sub_endpoint = apiEndpoint (config s1),
                       sub_gameId = gameId (config s1),
                       sub_playId = playId (config s1),
                       sub_events = eventsToSend \<rparr>))"

text \<open>\<open>limit && length > limit\<close> and \<open>batch && length >= batch\<close>.\<close>

definition over_limit :: "int option \<Rightarrow> nat \<Rightarrow> bool" where
  "over_limit limit len = (truthy_num limit \<and> (case limit of None \<Rightarrow> False | Some m \<Rightarrow> int len > m))"

definition batch_reached :: "int option \<Rightarrow> nat \<Rightarrow> bool" where
  "batch_reached batch len = (truthy_num batch \<and> (case batch of None \<Rightarrow> False | Some m \<Rightarrow> int len \<ge> m))"

text \<open>
  \<open>addEventToQueue\<close>: append, trim to \<open>maxQueueSize\<close>, start a flush when the batch size
  is reached. The write to storage is handed to \<open>runWhenIdle\<close> and happens later, as
  a \<open>saveEventsToStorage\<close> of its own.
\<close>

definition addEventToQueue :: "event \<Rightarrow> state \<Rightarrow> state \<times> submission option" where
  "addEventToQueue ev s =
     (let s1 = s\<lparr> events := events s @ [ev] \<rparr>;
          s2 = s1\<lparr> bufferInfo := (bufferInfo s1)\<lparr> bi_size := length (events s1) \<rparr> \<rparr>;
          s3 = (if over_limit (maxQueueSize (config s2)) (length (events s2)) then
                  let es = (case maxQueueSize (config s2) of
                              None \<Rightarrow> events s2
                            | Some m \<Rightarrow> slice_from (- m) (events s2))
                  in s2\<lparr> events := es,
                         bufferInfo := (bufferInfo s2)
                           \<lparr> bi_size := length es,
                             bi_overflowCount := bi_overflowCount (bufferInfo s2) + 1 \<rparr> \<rparr>
                else s2)
      in if batch_reached (batchSize (config s3)) (length (events s3))
         then flushEvents s3
         else (s3, None))"

text \<open>What the queue limit of \<open>addEventToQueue\<close> leaves of a queue.\<close>

definition trimmed :: "config \<Rightarrow> event list \<Rightarrow> event list" where
  "trimmed cfg es =
     (if over_limit (maxQueueSize cfg) (length es)
      then (case maxQueueSize cfg of None \<Rightarrow> es | Some m \<Rightarrow> slice_from (- m) es)
      else es)"

text \<open>Enqueueing a sequence of events, one call after the other.\<close>

definition enqueue_all :: "event list \<Rightarrow> state \<Rightarrow> state" where
  "enqueue_all evs s = foldl (\<lambda>s ev. fst (addEventToQueue ev s)) s evs"

subsection \<open>Tracking\<close>

text \<open>The sampling condition of \<open>trackEvent\<close>: true when the event is sampled out.\<close>

definition sampled_out :: "config \<Rightarrow> real \<Rightarrow> bool" where
  "sampled_out cfg r =
     (case sampleRate cfg of
        None \<Rightarrow> False
      | Some rate \<Rightarrow> rate < 1 \<and> \<not> shouldSampleEvent rate r)"

text \<open>
  The object literal of \<open>trackEvent\<close>: five computed fields, then the spread of the
  partial event over them, then the environment data if configured and still missing.
\<close>

definition fullEvent :: "env \<Rightarrow> config \<Rightarrow> partial_event \<Rightarrow> event" where
  "fullEvent e cfg p =
     (let fe = \<lparr> ev_id = spread (Some (uuid e)) (p_id p),
                 ev_timestamp = spread (Some (now e)) (p_timestamp p),
                 ev_type = spread (Some (or_default (p_type p) ''custom'')) (p_type p),
                 ev_gameId = spread (Some (or_default (p_gameId p) (gameId cfg))) (p_gameId p),
                 ev_playId = spread (Some (or_default (p_playId p) (playId cfg))) (p_playId p),
                 ev_target = spread None (p_target p),
                 ev_environmentData = spread None (p_environmentData p),
                 ev_error = spread None (p_error p),
                 ev_rest = p_rest p \<rparr>
      in if truthy (collectEnvironmentData cfg) \<and> ev_environmentData fe = None
         then fe\<lparr> ev_environmentData := Some (environmentData e) \<rparr>
         else fe)"

text \<open>
  Whether the sampling condition of \<open>trackEvent\<close> gets as far as \<open>Math.random()\<close>: a
  rate is configured, it is below 1, and \<open>shouldSampleEvent\<close> returns at neither of its
  first two checks. \<open>after_sampling\<close> counts the call.
\<close>

definition draws_random :: "config \<Rightarrow> bool" where
  "draws_random cfg =
     (case sampleRate cfg of
        None \<Rightarrow> False
      | Some rate \<Rightarrow> rate < 1 \<and> \<not> rate \<ge> 1 \<and> \<not> rate \<le> 0)"

definition after_sampling :: "state \<Rightarrow> state" where
  "after_sampling s =
     (if draws_random (config s) then s\<lparr> samplingDraws := samplingDraws s + 1 \<rparr> else s)"

definition trackEvent :: "env \<Rightarrow> partial_event \<Rightarrow> state \<Rightarrow> state \<times> submission option" where
  "trackEvent e p s =
     (let allowed = fst (read_isTrackingAllowed e s);
          s0 = snd (read_isTrackingAllowed e s)
      in if \<not> allowed then (s0, None)
         else
           let s1 = after_sampling s0
           in if sampled_out (config s0) (random e) then (s1, None)
              else
                let fe = fullEvent e (config s1) p
                in (case eventTransformer (config s1) of
                      Some transformer \<Rightarrow>
                        (case transformer fe of
                           Inr transformedEvent \<Rightarrow> addEventToQueue transformedEvent s1
                         | Inl err \<Rightarrow> addEventToQueue fe s1)
                    | None \<Rightarrow> addEventToQueue fe s1))"

text \<open>
  Three names for parts of \<open>trackEvent\<close>: whether the two checks let an event through,
  the state the two checks leave, and the event that is then handed to
  \<open>addEventToQueue\<close> (the transformed event, or the untransformed one when there is no
  transformer or it throws).
\<close>

definition admitted :: "env \<Rightarrow> state \<Rightarrow> bool" where
  "admitted e s =
     (fst (read_isTrackingAllowed e s) \<and> \<not> sampled_out (config s) (random e))"

definition checked :: "env \<Rightarrow> state \<Rightarrow> state" where
  "checked e s = after_sampling (snd (read_isTrackingAllowed e s))"

definition queued_event :: "env \<Rightarrow> config \<Rightarrow> partial_event \<Rightarrow> event" where
  "queued_event e cfg p =
     (case eventTransformer cfg of
        None \<Rightarrow> fullEvent e cfg p
      | Some transformer \<Rightarrow>
          (case transformer (fullEvent e cfg p) of
             Inr transformedEvent \<Rightarrow> transformedEvent
           | Inl err \<Rightarrow> fullEvent e cfg p))"

subsection \<open>The end of a flush\<close>

text \<open>The error the \<open>try\<close> block ends with, if any: a rejected request or a status outside 2xx.\<close>

definition failure_message :: "fetch_outcome \<Rightarrow> string option" where
  "failure_message outcome =
     (case outcome of
        NetworkError msg \<Rightarrow> Some msg
      | Response status \<Rightarrow>
          if response_ok status then None
          else Some (''API responded with status '' @ string_of_nat status))"

definition error_event :: "string \<Rightarrow> partial_event" where
  "error_event msg =
     \<lparr> p_id = Absent, p_timestamp = Absent, p_type = Value ''error'',
       p_gameId = Absent, p_playId = Absent, p_target = Value ''analytics'',
       p_environmentData = Absent,
       p_error = Value \<lparr> err_message = msg, err_code = API_SUBMISSION_FAILED \<rparr>,
       p_rest = [] \<rparr>"

text \<open>
  What \<open>flushEvents\<close> does once the request has ended, on the state as it is then:
  \<open>eventsToSend\<close> is the snapshot taken before the request. The \<open>finally\<close> block runs last
  on both paths.
\<close>

definition flushEvents_settle ::
  "fetch_outcome \<Rightarrow> event list \<Rightarrow> env \<Rightarrow> state \<Rightarrow> state \<times> submission option" where
  "flushEvents_settle outcome eventsToSend e s =
     (case failure_message outcome of
        None \<Rightarrow>
          let es = filter (\<lambda>ev. \<not> list_ex (\<lambda>se. ev_id se = ev_id ev) eventsToSend) (events s);
              s1 = s\<lparr> events := es,
                     bufferInfo := (bufferInfo s)\<lparr> bi_size := length es \<rparr>,
                     lastFlushTime := Some (now e) \<rparr>;
              s2 = removeItem STORAGE_KEY_EVENTS s1
          in (s2\<lparr> pendingFlush := False \<rparr>, None)
      | Some msg \<Rightarrow>
          let s1 = s\<lparr> failedSubmissions := failedSubmissions s + 1 \<rparr>;
              r = (if truthy (trackErrors (config s1))
                   then trackEvent e (error_event msg) s1
                   else (s1, None))
          in ((fst r)\<lparr> pendingFlush := False \<rparr>, snd r))"

subsection \<open>Lifecycle\<close>

definition updateNetworkStatus :: "bool \<Rightarrow> string \<Rightarrow> state \<Rightarrow> state \<times> submission option" where
  "updateNetworkStatus online connectionType s =
     (let wasOffline = \<not> isOnline (networkStatus s);
          s1 = s\<lparr> networkStatus := \<lparr> isOnline = online, lastConnectionType = connectionType \<rparr> \<rparr>
      in if wasOffline \<and> online \<and> length (events s1) > 0
         then flushEvents s1
         else (s1, None))"

text \<open>\<open>{...DEFAULT_OPTIONS, ...options}\<close>.\<close>

definition merge_options :: "options \<Rightarrow> config" where
  "merge_options opts =
     \<lparr> apiEndpoint = o_apiEndpoint opts, gameId = o_gameId opts, playId = o_playId opts,
       batchSize = spread (batchSize DEFAULT_CONFIG) (o_batchSize opts),
       flushInterval = spread (flushInterval DEFAULT_CONFIG) (o_flushInterval opts),
       maxQueueSize = spread (maxQueueSize DEFAULT_CONFIG) (o_maxQueueSize opts),
       trackErrors = spread (trackErrors DEFAULT_CONFIG) (o_trackErrors opts),
       sampleRate = spread (sampleRate DEFAULT_CONFIG) (o_sampleRate opts),
       collectEnvironmentData =
         spread (collectEnvironmentData DEFAULT_CONFIG) (o_collectEnvironmentData opts),
       debug = spread (debug DEFAULT_CONFIG) (o_debug opts),
       respectDoNotTrack = spread (respectDoNotTrack DEFAULT_CONFIG) (o_respectDoNotTrack opts),
       consentRequired = spread (consentRequired DEFAULT_CONFIG) (o_consentRequired opts),
       eventTransformer = spread None (o_eventTransformer opts) \<rparr>"

text \<open>
  \<open>initialize\<close>. The interval timer and the \<open>beforeunload\<close> handler it installs call
  \<open>flushEvents\<close> and \<open>saveEventsToStorage\<close> later; they are actions of the
  surroundings in the transition system below.
\<close>

definition initialize :: "options \<Rightarrow> env \<Rightarrow> state \<Rightarrow> state" where
  "initialize opts e s =
     (let s1 = assign_config (merge_options opts) s;
          s2 = s1\<lparr> isDebugMode := truthy (debug (config s1)) \<rparr>;
          s3 = (case retrieveFromStorage STORAGE_KEY_EVENTS s2 of
                  Some (StoredEvents storedEvents) \<Rightarrow>
                    s2\<lparr> events := storedEvents,
                       bufferInfo := (bufferInfo s2)\<lparr> bi_size := length storedEvents \<rparr> \<rparr>
                | _ \<Rightarrow> s2);
          s4 = assign_isEnabled True s3
      in s4\<lparr> networkStatus := (networkStatus s4)\<lparr> isOnline := navigator_onLine e \<rparr> \<rparr>)"

section \<open>The store as a transition system\<close>

text \<open>
  The store together with the requests that have been handed to \<open>fetch\<close> and have not
  ended yet. An action of the application or of the surroundings (a timer, the network,
  an idle callback, a component that reads the getter) is one step; \<open>Settle\<close> ends the oldest outstanding request and runs
  the rest of its \<open>flushEvents\<close>.
\<close>

record system =
  store :: state
  inflight :: "submission list"

datatype action =
    Initialize options env
  | SetConsent bool
  | SetDebugMode bool
  | UpdateNetworkStatus bool string
  | TrackEvent env partial_event
  | AddEventToQueue event
  | SaveEventsToStorage bool
  | FlushEvents
  | Settle fetch_outcome env
  | ClearEvents
  | FilterEvents "event \<Rightarrow> bool"
  | ReadIsTrackingAllowed env

definition launched :: "submission list \<Rightarrow> state \<times> submission option \<Rightarrow> system" where
  "launched outstanding r =
     \<lparr> store = fst r,
       inflight = outstanding @ (case snd r of None \<Rightarrow> [] | Some sub \<Rightarrow> [sub]) \<rparr>"

fun step :: "action \<Rightarrow> system \<Rightarrow> system" where
  "step (Initialize opts e) sys = sys\<lparr> store := initialize opts e (store sys) \<rparr>"
| "step (SetConsent consent) sys = sys\<lparr> store := setConsent consent (store sys) \<rparr>"
| "step (SetDebugMode enabled) sys = sys\<lparr> store := setDebugMode enabled (store sys) \<rparr>"
| "step (UpdateNetworkStatus online connectionType) sys =
     launched (inflight sys) (updateNetworkStatus online connectionType (store sys))"
| "step (TrackEvent e p) sys = launched (inflight sys) (trackEvent e p (store sys))"
| "step (AddEventToQueue ev) sys = launched (inflight sys) (addEventToQueue ev (store sys))"
| "step (SaveEventsToStorage ok) sys = sys\<lparr> store := saveEventsToStorage ok (store sys) \<rparr>"
| "step FlushEvents sys = launched (inflight sys) (flushEvents (store sys))"
| "step (Settle outcome e) sys =
     (case inflight sys of
        [] \<Rightarrow> sys
      | sub # rest \<Rightarrow> launched rest (flushEvents_settle outcome (sub_events sub) e (store sys)))"
| "step ClearEvents sys = sys\<lparr> store := clearEvents (store sys) \<rparr>"
| "step (FilterEvents filterFn) sys = sys\<lparr> store := filterEvents filterFn (store sys) \<rparr>"
| "step (ReadIsTrackingAllowed e) sys =
     sys\<lparr> store := snd (read_isTrackingAllowed e (store sys)) \<rparr>"

definition run :: "action list \<Rightarrow> system \<Rightarrow> system" where
  "run acts sys = foldl (\<lambda>sys a. step a sys) sys acts"

definition initial_system :: "(string \<Rightarrow> stored option) \<Rightarrow> system" where
  "initial_system ls = \<lparr> store = initial_state ls, inflight = [] \<rparr>"

section \<open>Worked scenarios\<close>

text \<open>
  Concrete surroundings and inputs on which the theorems below are exercised: a browser
  without a Do-Not-Track signal that is online, where \<open>generateUUID()\<close> returns
  \<open>u\<close> and \<open>Date.now()\<close> returns \<open>t\<close>; the same browser with the signal set; a
  click event as a listener reports it; options that name only the endpoint and the
  session.
\<close>

definition browser :: "string \<Rightarrow> int \<Rightarrow> env" where
  "browser u t =
     \<lparr> navigator_doNotTrack = None, window_doNotTrack = None, navigator_msDoNotTrack = None,
       navigator_onLine = True, uuid = u, now = t, random = 0, environmentData = [] \<rparr>"

definition browser_dnt :: "string \<Rightarrow> int \<Rightarrow> env" where
  "browser_dnt u t = (browser u t)\<lparr> navigator_doNotTrack := Some ''1'' \<rparr>"

definition click :: partial_event where
  "click =
     \<lparr> p_id = Absent, p_timestamp = Absent, p_type = Value ''click'', p_gameId = Absent,
       p_playId = Absent, p_target = Absent, p_environmentData = Absent, p_error = Absent,
       p_rest = [] \<rparr>"

definition demo_options :: options where
  "demo_options =
     \<lparr> o_apiEndpoint = ''https://example.test/events'', o_gameId = ''game'', o_playId = ''play'',
       o_batchSize = Absent, o_flushInterval = Absent, o_maxQueueSize = Absent,
       o_trackErrors = Absent, o_sampleRate = Absent, o_collectEnvironmentData = Absent,
       o_debug = Absent, o_respectDoNotTrack = Absent, o_consentRequired = Absent,
       o_eventTransformer = Absent \<rparr>"

text \<open>A buffer of capacity 2 with the \<open>error\<close> strategy, filled.\<close>

definition full_strict_buffer :: "nat CircularBuffer" where
  "full_strict_buffer =
     push_all [1, 2] (new_CircularBuffer \<lparr> opt_capacity = 2, opt_overflowStrategy = Error \<rparr>)"

text \<open>A store limited to three events, with consent; then four events tracked.\<close>

definition ready_cap3 :: system where
  "ready_cap3 =
     run [Initialize (demo_options\<lparr> o_maxQueueSize := Value 3 \<rparr>) (browser ''init'' 0),
          SetConsent True]
       (initial_system Map.empty)"

definition four_tracked_cap3 :: system where
  "four_tracked_cap3 =
     run [TrackEvent (browser ''A'' 1) click, TrackEvent (browser ''B'' 2) click,
          TrackEvent (browser ''C'' 3) click, TrackEvent (browser ''D'' 4) click]
       ready_cap3"

definition four_events :: "event list" where
  "four_events =
     map (\<lambda>u. fullEvent (browser u 0) DEFAULT_CONFIG click) [''A'', ''B'', ''C'', ''D'']"

text \<open>A store ready to track, and one still waiting for consent with a sampling rate of one half.\<close>

definition ready :: system where
  "ready =
     run [Initialize demo_options (browser ''init'' 0), SetConsent True]
       (initial_system Map.empty)"


text \<open>Two events tracked and written to storage by the idle callback.\<close>

definition tracked_and_saved :: system where
  "tracked_and_saved =
     run [TrackEvent (browser ''a'' 1) click, TrackEvent (browser ''b'' 2) click,
          SaveEventsToStorage True]
       ready"

text \<open>
  Three events tracked and a flush started; then a fourth event tracked while the request
  is outstanding.
\<close>

definition three_queued :: system where
  "three_queued =
     run [TrackEvent (browser ''a'' 1) click, TrackEvent (browser ''b'' 2) click,
          TrackEvent (browser ''c'' 3) click]
       ready"

definition three_tracked :: system where
  "three_tracked = step FlushEvents three_queued"

definition fourth_tracked :: system where
  "fourth_tracked = step (TrackEvent (browser ''d'' 4) click) three_tracked"

text \<open>
  The same, with a caller that names its events itself and tracks \<open>level-1\<close> again
  while the request is outstanding.
\<close>

definition named_tracked :: system where
  "named_tracked =
     run [TrackEvent (browser ''a'' 1) (click\<lparr> p_id := Value ''level-1'' \<rparr>),
          TrackEvent (browser ''b'' 2) (click\<lparr> p_id := Value ''level-2'' \<rparr>),
          TrackEvent (browser ''c'' 3) (click\<lparr> p_id := Value ''level-3'' \<rparr>), FlushEvents]
       ready"

definition fourth_colliding :: system where
  "fourth_colliding =
     step (TrackEvent (browser ''d'' 4) (click\<lparr> p_id := Value ''level-1'' \<rparr>)) named_tracked"

text \<open>
  A store that samples one event in two, with consent, three events tracked and a flush
  started; and a browser whose \<open>Math.random()\<close> returns three quarters.
\<close>

definition half_sampled :: system where
  "half_sampled =
     run [Initialize (demo_options\<lparr> o_sampleRate := Value (1/2) \<rparr>) (browser ''init'' 0),
          SetConsent True,
          TrackEvent (browser ''a'' 1) click, TrackEvent (browser ''b'' 2) click,
          TrackEvent (browser ''c'' 3) click, FlushEvents]
       (initial_system Map.empty)"

definition browser_unlucky :: "string \<Rightarrow> int \<Rightarrow> env" where
  "browser_unlucky u t = (browser u t)\<lparr> random := 3/4 \<rparr>"


text \<open>A store limited to two events, holding two, with a flush started.\<close>

definition two_tracked_cap2 :: system where
  "two_tracked_cap2 =
     run [Initialize (demo_options\<lparr> o_maxQueueSize := Value 2 \<rparr>) (browser ''init'' 0),
          SetConsent True,
          TrackEvent (browser ''a'' 1) click, TrackEvent (browser ''b'' 2) click, FlushEvents]
       (initial_system Map.empty)"

text \<open>A session that uses most of the actions.\<close>

definition session_actions :: "action list" where
  "session_actions =
     [Initialize demo_options (browser ''init'' 0), SetConsent True,
      TrackEvent (browser ''a'' 1) click, TrackEvent (browser ''b'' 2) click,
      TrackEvent (browser ''c'' 3) click, FlushEvents,
      TrackEvent (browser ''d'' 4) click,
      Settle (NetworkError ''down'') (browser ''e'' 5),
      UpdateNetworkStatus False ''none'', FlushEvents, UpdateNetworkStatus True ''wifi'',
      Settle (Response 200) (browser ''f'' 6),
      TrackEvent (browser ''g'' 7) click]"

text \<open>The ids in the queue, and the ids in each outstanding request.\<close>

definition queue_ids :: "system \<Rightarrow> string option list" where
  "queue_ids sys = map ev_id (events (store sys))"

definition inflight_ids :: "system \<Rightarrow> string option list list" where
  "inflight_ids sys = map (\<lambda>sub. map ev_id (sub_events sub)) (inflight sys)"

text \<open>
  The two invariants of the transition system: the recorded size is the length of the
  queue, and at most one request is outstanding, exactly while \<open>pendingFlush\<close> is set.
\<close>

definition size_ok :: "state \<Rightarrow> bool" where
  "size_ok s = (bi_size (bufferInfo s) = length (events s))"

definition single_flight :: "system \<Rightarrow> bool" where
  "single_flight sys =
     (length (inflight sys) \<le> 1 \<and> (pendingFlush (store sys) \<longleftrightarrow> inflight sys \<noteq> []))"

text \<open>
  What an action that may call \<open>flushEvents\<close> does to the flag: it hands a request to
  \<open>fetch\<close> only when the flag was clear, and sets it then; otherwise it leaves it.
\<close>

definition may_launch :: "state \<Rightarrow> state \<times> submission option \<Rightarrow> bool" where
  "may_launch s r =
     (case snd r of
        None \<Rightarrow> pendingFlush (fst r) = pendingFlush s
      | Some sub \<Rightarrow> \<not> pendingFlush s \<and> pendingFlush (fst r))"

section \<open>The circular buffer holds the last items pushed\<close>

lemma slot_distinct:
  fixes c :: nat
  assumes "i < j" "j < c"
  shows "(h + i) mod c \<noteq> (h + j) mod c"
proof
  assume "(h + i) mod c = (h + j) mod c"
  then have "(h + j) mod c = (h + i) mod c" by simp
  then have "c dvd (h + j) - (h + i)"
    using assms by (simp add: mod_eq_dvd_iff_nat)
  then have "c dvd j - i" by simp
  then show False using assms by (auto dest: dvd_imp_le)
qed

lemma loop_reads:
  assumes "0 < cb_capacity b"
    and "\<forall>i < length ys. cb_buffer b ! ((cur + i) mod cb_capacity b) = Some (ys ! i)"
    and "cur < cb_capacity b"
  shows "getItems_loop b items cur (length ys) = items @ ys"
  using assms
proof (induction ys arbitrary: items cur)
  case Nil
  then show ?case by simp
next
  case (Cons y ys)
  have h: "cb_buffer b ! cur = Some y"
    using Cons.prems(2)[rule_format, of 0] Cons.prems(3) by simp
  have "\<forall>i<length ys. cb_buffer b ! (((cur + 1) mod cb_capacity b + i) mod cb_capacity b) = Some (ys ! i)"
  proof (intro allI impI)
    fix i assume "i < length ys"
    then have "cb_buffer b ! ((cur + Suc i) mod cb_capacity b) = Some ((y # ys) ! Suc i)"
      using Cons.prems(2)[rule_format, of "Suc i"] by simp
    moreover have "((cur + 1) mod cb_capacity b + i) mod cb_capacity b = (cur + Suc i) mod cb_capacity b"
      by (simp add: mod_add_left_eq)
    ultimately show "cb_buffer b ! (((cur + 1) mod cb_capacity b + i) mod cb_capacity b) = Some (ys ! i)"
      by simp
  qed
  moreover have "(cur + 1) mod cb_capacity b < cb_capacity b"
    using Cons.prems(1) by simp
  ultimately have "getItems_loop b (items @ [y]) ((cur + 1) mod cb_capacity b) (length ys) = (items @ [y]) @ ys"
    using Cons.IH Cons.prems(1) by blast
  then show ?case using h by simp
qed

lemma getItems_represents: "represents b xs \<Longrightarrow> getItems b = xs"
  using loop_reads[of b xs "cb_head b" "[]"]
  by (auto simp: represents_def getItems_def)



lemma represents_new:
  "0 < opt_capacity opts \<Longrightarrow> represents (new_CircularBuffer opts) []"
  by (simp add: represents_def new_CircularBuffer_def)

lemma represents_store:
  assumes "represents b xs" "cb_size b < cb_capacity b"
  shows "represents (store_at_tail x b) (xs @ [x])"
proof -
  let ?c = "cb_capacity b" and ?h = "cb_head b"
  from assms have c: "0 < ?c" "length (cb_buffer b) = ?c" "?h < ?c" "cb_size b = length xs"
    "cb_tail b = (?h + length xs) mod ?c" "length xs < ?c"
    and rd: "\<And>i. i < length xs \<Longrightarrow> cb_buffer b ! ((?h + i) mod ?c) = Some (xs ! i)"
    by (auto simp: represents_def)
  have "(cb_buffer b)[cb_tail b := Some x] ! ((?h + i) mod ?c) = Some ((xs @ [x]) ! i)"
    if "i < length (xs @ [x])" for i
  proof (cases "i < length xs")
    case True
    then have "(?h + i) mod ?c \<noteq> (?h + length xs) mod ?c"
      using slot_distinct[of i "length xs" ?c ?h] c by simp
    then show ?thesis using True rd c by (simp add: nth_append)
  next
    case False
    then have "i = length xs" using that by simp
    then show ?thesis using c by simp
  qed
  moreover have "(cb_tail b + 1) mod ?c = (?h + (cb_size b + 1)) mod ?c"
    using c by (simp add: mod_Suc_eq)
  ultimately show ?thesis
    using c unfolding represents_def store_at_tail_def by simp
qed

lemma represents_dequeue:
  assumes "represents b (x # xs)"
  shows "represents (snd (dequeue b)) xs \<and> fst (dequeue b) = Some x"
proof -
  let ?c = "cb_capacity b" and ?h = "cb_head b"
  from assms have c: "0 < ?c" "length (cb_buffer b) = ?c" "?h < ?c" "cb_size b = Suc (length xs)"
    "cb_tail b = (?h + Suc (length xs)) mod ?c" "Suc (length xs) \<le> ?c"
    and rd: "\<And>i. i < Suc (length xs) \<Longrightarrow> cb_buffer b ! ((?h + i) mod ?c) = Some ((x # xs) ! i)"
    by (auto simp: represents_def)
  have "(cb_buffer b)[?h := None] ! (((?h + 1) mod ?c + i) mod ?c) = Some (xs ! i)"
    if "i < length xs" for i
  proof -
    have e: "((?h + 1) mod ?c + i) mod ?c = (?h + Suc i) mod ?c"
      by (simp add: mod_add_left_eq)
    have "(?h + 0) mod ?c \<noteq> (?h + Suc i) mod ?c"
      using slot_distinct[of 0 "Suc i" ?c ?h] that c by simp
    then have "?h \<noteq> (?h + Suc i) mod ?c" using c by simp
    then show ?thesis using rd[of "Suc i"] that e by simp
  qed
  moreover have "cb_tail b = ((?h + 1) mod ?c + length xs) mod ?c"
    using c by (simp add: mod_add_left_eq)
  moreover have "fst (dequeue b) = Some x"
    using rd[of 0] c by (simp add: dequeue_def Let_def)
  ultimately show ?thesis
    using c unfolding represents_def dequeue_def by (simp add: Let_def)
qed




lemma drop_drop_last:
  assumes "0 < c"
  shows "drop (Suc (length (drop (length xs - c) xs)) - c) (drop (length xs - c) xs @ [x])
       = drop (length (xs @ [x]) - c) (xs @ [x])"
proof (cases "length xs < c")
  case True
  then show ?thesis by simp
next
  case False
  define n where "n = length xs - c"
  have n: "Suc n \<le> length xs" "length xs - n = c" using False assms by (auto simp: n_def)
  have a: "Suc (length (drop n xs)) - c = 1" using n by simp
  have b: "length (xs @ [x]) - c = Suc n" using False by (simp add: n_def)
  have "drop 1 (drop n xs @ [x]) = drop (Suc n) (xs @ [x])"
    using n by simp
  then show ?thesis using a b unfolding n_def by simp
qed




lemma store_at_tail_fields:
  "cb_overflowStrategy (store_at_tail x b) = cb_overflowStrategy b"
  "cb_capacity (store_at_tail x b) = cb_capacity b"
  "cb_overflowCount (store_at_tail x b) = cb_overflowCount b"
  by (simp_all add: store_at_tail_def)

lemma dequeue_fields:
  "cb_overflowStrategy (snd (dequeue b)) = cb_overflowStrategy b"
  "cb_capacity (snd (dequeue b)) = cb_capacity b"
  "cb_overflowCount (snd (dequeue b)) = cb_overflowCount b"
  by (simp_all add: dequeue_def Let_def)

lemma push_not_full:
  "cb_size b \<noteq> cb_capacity b \<Longrightarrow> push x b = (Inr True, store_at_tail x b)"
  by (simp add: push_def)

lemma push_full_oldest:
  "cb_size b = cb_capacity b \<Longrightarrow> cb_overflowStrategy b = DiscardOldest \<Longrightarrow>
   push x b = (Inr True, store_at_tail x (snd (dequeue b)))"
  by (simp add: push_def)

lemma represents_push_oldest:
  assumes "represents b xs" "cb_overflowStrategy b = DiscardOldest"
  shows "represents (snd (push x b)) (drop (Suc (length xs) - cb_capacity b) (xs @ [x]))
         \<and> cb_overflowStrategy (snd (push x b)) = DiscardOldest
         \<and> cb_capacity (snd (push x b)) = cb_capacity b
         \<and> cb_overflowCount (snd (push x b)) = cb_overflowCount b
         \<and> fst (push x b) = Inr True"
proof (cases "cb_size b = cb_capacity b")
  case False
  then have lt: "cb_size b < cb_capacity b" using assms by (simp add: represents_def)
  then have "Suc (length xs) - cb_capacity b = 0" using assms by (simp add: represents_def)
  then show ?thesis
    using represents_store[OF assms(1) lt, of x] assms(2)
    by (simp add: push_not_full[OF False] store_at_tail_fields)
next
  case True
  then obtain y ys where xs: "xs = y # ys"
    using assms(1) by (cases xs) (auto simp: represents_def)
  have d: "represents (snd (dequeue b)) ys" using represents_dequeue[of b y ys] assms(1) xs by simp
  have "cb_size (snd (dequeue b)) = length ys" using d by (simp add: represents_def)
  moreover have "cb_capacity b = Suc (length ys)"
    using True assms(1) xs by (simp add: represents_def)
  ultimately have sz: "cb_size (snd (dequeue b)) < cb_capacity (snd (dequeue b))"
    by (simp add: dequeue_fields)
  have "Suc (length xs) - cb_capacity b = 1"
    using True assms(1) by (simp add: represents_def)
  then have "drop (Suc (length xs) - cb_capacity b) (xs @ [x]) = ys @ [x]"
    using xs by simp
  then show ?thesis
    using represents_store[OF d sz, of x] assms(2)
    by (simp add: push_full_oldest[OF True assms(2)] store_at_tail_fields dequeue_fields)
qed




lemma push_all_snoc: "push_all (xs @ [x]) b = snd (push x (push_all xs b))"
  by (simp add: push_all_def)

lemma push_all_oldest:
  assumes "0 < c"
  defines "b0 \<equiv> new_CircularBuffer \<lparr> opt_capacity = c, opt_overflowStrategy = DiscardOldest \<rparr>"
  shows "represents (push_all xs b0) (drop (length xs - c) xs)
         \<and> cb_overflowStrategy (push_all xs b0) = DiscardOldest
         \<and> cb_capacity (push_all xs b0) = c \<and> cb_overflowCount (push_all xs b0) = 0"
proof (induction xs rule: rev_induct)
  case Nil
  have "represents b0 []" unfolding b0_def using assms(1) by (intro represents_new) simp
  then show ?case by (simp add: push_all_def b0_def new_CircularBuffer_def)
next
  case (snoc x xs)
  let ?b = "push_all xs b0"
  from snoc have r: "represents ?b (drop (length xs - c) xs)" and s: "cb_overflowStrategy ?b = DiscardOldest"
    and cp: "cb_capacity ?b = c" and oc: "cb_overflowCount ?b = 0"
    by simp_all
  have "represents (snd (push x ?b)) (drop (length (xs @ [x]) - c) (xs @ [x]))"
    using represents_push_oldest[OF r s, of x] cp drop_drop_last[OF assms(1), of xs x] by simp
  then show ?case
    using represents_push_oldest[OF r s, of x] cp oc by (simp add: push_all_snoc)
qed





section \<open>Facts about the store's actions\<close>

lemma flushEvents_keeps:
  "events (fst (flushEvents s)) = events s"
  "config (fst (flushEvents s)) = config s"
  "bufferInfo (fst (flushEvents s)) = bufferInfo s"
  by (simp_all add: flushEvents_def Let_def)

lemma addEventToQueue_events:
  "events (fst (addEventToQueue ev s)) = trimmed (config s) (events s @ [ev])"
  by (simp add: addEventToQueue_def Let_def flushEvents_keeps trimmed_def split: option.splits)

lemma addEventToQueue_config:
  "config (fst (addEventToQueue ev s)) = config s"
  by (simp add: addEventToQueue_def Let_def flushEvents_keeps)

lemma addEventToQueue_size:
  "bi_size (bufferInfo (fst (addEventToQueue ev s))) = length (events (fst (addEventToQueue ev s)))"
  by (simp add: addEventToQueue_def Let_def flushEvents_keeps)

lemma addEventToQueue_overflowCount:
  "bi_overflowCount (bufferInfo (fst (addEventToQueue ev s))) =
     bi_overflowCount (bufferInfo s) +
     (if over_limit (maxQueueSize (config s)) (Suc (length (events s))) then 1 else 0)"
  by (simp add: addEventToQueue_def Let_def flushEvents_keeps)

lemma enqueue_all_snoc: "enqueue_all (evs @ [ev]) s = fst (addEventToQueue ev (enqueue_all evs s))"
  by (simp add: enqueue_all_def)

lemma enqueue_all_config: "config (enqueue_all evs s) = config s"
  by (induction evs rule: rev_induct) (simp_all add: enqueue_all_snoc addEventToQueue_config, simp add: enqueue_all_def)

lemma over_limit_positive:
  "over_limit (Some (int c)) n \<longleftrightarrow> 0 < c \<and> c < n"
  by (auto simp: over_limit_def truthy_num_def)

lemma trimmed_positive:
  assumes "maxQueueSize cfg = Some (int c)" "0 < c"
  shows "trimmed cfg es = drop (length es - c) es"
  using assms by (auto simp: trimmed_def over_limit_def truthy_num_def slice_from_def Let_def nat_diff_distrib')


lemma enqueue_all_trims:
  assumes "maxQueueSize (config s) = Some (int c)" "0 < c" "length (events s) \<le> c"
  shows "events (enqueue_all evs s) = drop (length (events s @ evs) - c) (events s @ evs)
       \<and> bi_overflowCount (bufferInfo (enqueue_all evs s)) =
           bi_overflowCount (bufferInfo s) + (length (events s @ evs) - c)"
proof (induction evs rule: rev_induct)
  case Nil
  then show ?case using assms by (simp add: enqueue_all_def)
next
  case (snoc ev evs)
  let ?t = "enqueue_all evs s" and ?all = "events s @ evs"
  have cfg: "maxQueueSize (config ?t) = Some (int c)" using assms(1) by (simp add: enqueue_all_config)
  have ev: "events ?t = drop (length ?all - c) ?all" using snoc by simp
  have len: "length (events ?t) = min (length ?all) c" using ev by auto
  have "events (enqueue_all (evs @ [ev]) s) = drop (Suc (length (events ?t)) - c) (events ?t @ [ev])"
    using trimmed_positive[OF cfg assms(2)] by (simp add: enqueue_all_snoc addEventToQueue_events)
  also have "\<dots> = drop (length (?all @ [ev]) - c) (?all @ [ev])"
    unfolding ev using drop_drop_last[OF assms(2), of ?all ev] by simp
  finally have 1: "events (enqueue_all (evs @ [ev]) s) = drop (length (events s @ evs @ [ev]) - c) (events s @ evs @ [ev])"
    by simp
  have "over_limit (maxQueueSize (config ?t)) (Suc (length (events ?t))) \<longleftrightarrow> c \<le> length ?all"
    using assms(2) len unfolding cfg over_limit_positive by auto
  then have 2: "bi_overflowCount (bufferInfo (enqueue_all (evs @ [ev]) s)) =
           bi_overflowCount (bufferInfo s) + (length (events s @ evs @ [ev]) - c)"
    using snoc by (auto simp: enqueue_all_snoc addEventToQueue_overflowCount)
  show ?case using 1 2 by simp
qed




lemma read_isTrackingAllowed_keeps:
  "events (snd (read_isTrackingAllowed e s)) = events s"
  "config (snd (read_isTrackingAllowed e s)) = config s"
  "bufferInfo (snd (read_isTrackingAllowed e s)) = bufferInfo s"
  "pendingFlush (snd (read_isTrackingAllowed e s)) = pendingFlush s"
  "failedSubmissions (snd (read_isTrackingAllowed e s)) = failedSubmissions s"
  "samplingDraws (snd (read_isTrackingAllowed e s)) = samplingDraws s"
  by (simp_all add: read_isTrackingAllowed_def split: option.splits)

lemma checked_keeps:
  "events (checked e s) = events s"
  "config (checked e s) = config s"
  "bufferInfo (checked e s) = bufferInfo s"
  "pendingFlush (checked e s) = pendingFlush s"
  "failedSubmissions (checked e s) = failedSubmissions s"
  by (simp_all add: checked_def after_sampling_def read_isTrackingAllowed_keeps)

lemma size_ok_checked:
  "size_ok (snd (read_isTrackingAllowed e s)) = size_ok s"
  "size_ok (checked e s) = size_ok s"
  by (simp_all add: size_ok_def read_isTrackingAllowed_keeps checked_keeps)

lemma trackEvent_cases:
  "trackEvent e p s =
     (if admitted e s then addEventToQueue (queued_event e (config s) p) (checked e s)
      else if fst (read_isTrackingAllowed e s) then (checked e s, None)
      else (snd (read_isTrackingAllowed e s), None))"
  by (simp add: trackEvent_def admitted_def checked_def queued_event_def Let_def
      read_isTrackingAllowed_keeps after_sampling_def split: option.splits sum.splits)

lemma flushEvents_pending:
  "pendingFlush s \<Longrightarrow> flushEvents s = (s, None)"
  "snd (flushEvents s) \<noteq> None \<Longrightarrow> \<not> pendingFlush s \<and> pendingFlush (fst (flushEvents s))"
  "snd (flushEvents s) = None \<Longrightarrow> fst (flushEvents s) = s"
  by (auto simp: flushEvents_def Let_def split: if_splits)

lemma flushEvents_noop:
  "pendingFlush s \<or> events s = [] \<or> \<not> isOnline (networkStatus s) \<Longrightarrow> flushEvents s = (s, None)"
  by (auto simp: flushEvents_def)

lemma flushEvents_size_ok: "size_ok (fst (flushEvents s)) = size_ok s"
  by (simp add: size_ok_def flushEvents_keeps)

lemma addEventToQueue_size_ok: "size_ok (fst (addEventToQueue ev s))"
  by (simp add: size_ok_def addEventToQueue_size)

lemma addEventToQueue_pending:
  "pendingFlush s \<Longrightarrow> snd (addEventToQueue ev s) = None \<and> pendingFlush (fst (addEventToQueue ev s))"
  "snd (addEventToQueue ev s) \<noteq> None \<Longrightarrow> pendingFlush (fst (addEventToQueue ev s))"
  by (auto simp: addEventToQueue_def Let_def flushEvents_def split: if_splits)



lemma addEventToQueue_failed:
  "failedSubmissions (fst (addEventToQueue ev s)) = failedSubmissions s"
  by (simp add: addEventToQueue_def Let_def flushEvents_def)

lemma trackEvent_size_ok: "size_ok s \<Longrightarrow> size_ok (fst (trackEvent e p s))"
  by (simp add: trackEvent_cases addEventToQueue_size_ok size_ok_checked)

lemma trackEvent_pending:
  "pendingFlush s \<Longrightarrow> snd (trackEvent e p s) = None \<and> pendingFlush (fst (trackEvent e p s))"
  "snd (trackEvent e p s) \<noteq> None \<Longrightarrow> pendingFlush (fst (trackEvent e p s))"
  by (auto simp: trackEvent_cases addEventToQueue_pending checked_keeps
      read_isTrackingAllowed_keeps split: if_splits)

lemma trackEvent_failed:
  "failedSubmissions (fst (trackEvent e p s)) = failedSubmissions s"
  by (simp add: trackEvent_cases addEventToQueue_failed checked_keeps read_isTrackingAllowed_keeps)

lemma updateNetworkStatus_size_ok: "size_ok s \<Longrightarrow> size_ok (fst (updateNetworkStatus on ct s))"
  by (simp add: updateNetworkStatus_def Let_def flushEvents_size_ok) (simp add: size_ok_def)

lemma settle_size_ok: "size_ok s \<Longrightarrow> size_ok (fst (flushEvents_settle outcome snap e s))"
proof (cases "failure_message outcome")
  case None
  then show ?thesis by (simp add: flushEvents_settle_def Let_def size_ok_def removeItem_def)
next
  case (Some msg)
  assume ok: "size_ok s"
  have a: "size_ok (s\<lparr>failedSubmissions := failedSubmissions s + 1\<rparr>)" using ok by (simp add: size_ok_def)
  have "size_ok (fst (trackEvent e (error_event msg) (s\<lparr>failedSubmissions := failedSubmissions s + 1\<rparr>)))"
    using trackEvent_size_ok[OF a] .
  then show ?thesis using Some a by (simp add: flushEvents_settle_def Let_def size_ok_def)
qed

lemma settle_not_pending: "\<not> pendingFlush (fst (flushEvents_settle outcome snap e s))"
  by (simp add: flushEvents_settle_def Let_def split: option.splits)

lemma settle_pending_none:
  "pendingFlush s \<Longrightarrow> snd (flushEvents_settle outcome snap e s) = None"
  by (simp add: flushEvents_settle_def Let_def trackEvent_pending split: option.splits)

lemma other_size_ok:
  "size_ok s \<Longrightarrow> size_ok (initialize opts e s)"
  "size_ok s \<Longrightarrow> size_ok (setConsent c s)"
  "size_ok s \<Longrightarrow> size_ok (setDebugMode d s)"
  "size_ok s \<Longrightarrow> size_ok (saveEventsToStorage ok s)"
  "size_ok (clearEvents s)"
  "size_ok (filterEvents f s)"
  by (simp_all add: size_ok_def initialize_def setConsent_def setDebugMode_def saveEventsToStorage_def
      clearEvents_def filterEvents_def assign_config_def assign_isEnabled_def
      assign_hasConsent_def persistToStorage_def removeItem_def retrieveFromStorage_def Let_def
      split: option.splits stored.splits)

lemma other_pending:
  "pendingFlush (initialize opts e s) = pendingFlush s"
  "pendingFlush (setConsent c s) = pendingFlush s"
  "pendingFlush (setDebugMode d s) = pendingFlush s"
  "pendingFlush (saveEventsToStorage ok s) = pendingFlush s"
  "pendingFlush (clearEvents s) = pendingFlush s"
  "pendingFlush (filterEvents f s) = pendingFlush s"
  by (simp_all add: initialize_def setConsent_def setDebugMode_def saveEventsToStorage_def
      clearEvents_def filterEvents_def assign_config_def assign_isEnabled_def
      assign_hasConsent_def persistToStorage_def removeItem_def retrieveFromStorage_def Let_def
      split: option.splits stored.splits)







lemma settle_success:
  assumes "failure_message outcome = None"
  shows "flushEvents_settle outcome eventsToSend e s =
           ((removeItem STORAGE_KEY_EVENTS
              (s\<lparr> events := filter (\<lambda>ev. \<not> list_ex (\<lambda>se. ev_id se = ev_id ev) eventsToSend) (events s),
                   bufferInfo := (bufferInfo s)\<lparr> bi_size := length (filter (\<lambda>ev. \<not> list_ex (\<lambda>se. ev_id se = ev_id ev) eventsToSend) (events s)) \<rparr>,
                   lastFlushTime := Some (now e) \<rparr>))\<lparr> pendingFlush := False \<rparr>, None)"
  using assms by (simp add: flushEvents_settle_def Let_def)

lemma some_same_id: "list_ex (\<lambda>se. ev_id se = ev_id ev) snap \<longleftrightarrow> ev_id ev \<in> ev_id ` set snap"
  unfolding list_ex_iff image_iff by metis

lemma admitted_failed:
  "admitted e (s\<lparr> failedSubmissions := n \<rparr>) = admitted e s"
  by (simp add: admitted_def read_isTrackingAllowed_def isTrackingAllowed_def split: option.splits)

lemma settle_failure:
  assumes "failure_message outcome = Some msg"
  shows "flushEvents_settle outcome eventsToSend e s =
           (if truthy (trackErrors (config s))
            then ((fst (trackEvent e (error_event msg) (s\<lparr> failedSubmissions := failedSubmissions s + 1 \<rparr>)))
                    \<lparr> pendingFlush := False \<rparr>,
                  snd (trackEvent e (error_event msg) (s\<lparr> failedSubmissions := failedSubmissions s + 1 \<rparr>)))
            else (s\<lparr> failedSubmissions := failedSubmissions s + 1, pendingFlush := False \<rparr>, None))"
  using assms by (simp add: flushEvents_settle_def Let_def)

lemma trimmed_keeps_when_room:
  "\<not> over_limit (maxQueueSize cfg) (length es) \<Longrightarrow> trimmed cfg es = es"
  by (simp add: trimmed_def)

section \<open>Invariants of the transition system\<close>

lemma launched_size_ok: "size_ok (store (launched out r)) = size_ok (fst r)"
  by (simp add: launched_def)

lemma step_size_ok: "size_ok (store sys) \<Longrightarrow> size_ok (store (step a sys))"
proof (cases a)
  case (Settle outcome e)
  assume "size_ok (store sys)"
  then show ?thesis using Settle
    by (cases "inflight sys") (simp_all add: launched_size_ok settle_size_ok)
qed (simp_all add: launched_size_ok other_size_ok trackEvent_size_ok addEventToQueue_size_ok
      updateNetworkStatus_size_ok flushEvents_size_ok size_ok_checked)

lemma run_snoc: "run (acts @ [a]) sys = step a (run acts sys)"
  by (simp add: run_def)

lemma run_size_ok: "size_ok (store sys) \<Longrightarrow> size_ok (store (run acts sys))"
  by (induction acts rule: rev_induct) (simp_all add: run_snoc step_size_ok, simp add: run_def)

lemma flushEvents_may_launch: "may_launch s (flushEvents s)"
  by (simp add: may_launch_def flushEvents_def Let_def)

lemma addEventToQueue_may_launch: "may_launch s (addEventToQueue ev s)"
  by (simp add: may_launch_def addEventToQueue_def Let_def flushEvents_def)

lemma trackEvent_may_launch: "may_launch s (trackEvent e p s)"
proof -
  have "may_launch (checked e s) (addEventToQueue (queued_event e (config s) p) (checked e s))"
    by (rule addEventToQueue_may_launch)
  then have "may_launch s (addEventToQueue (queued_event e (config s) p) (checked e s))"
    by (simp add: may_launch_def checked_keeps split: option.splits)
  then show ?thesis
    by (simp add: trackEvent_cases)
       (simp add: may_launch_def checked_keeps read_isTrackingAllowed_keeps)
qed

lemma updateNetworkStatus_may_launch: "may_launch s (updateNetworkStatus on ct s)"
  by (simp add: may_launch_def updateNetworkStatus_def Let_def flushEvents_def)

lemma launched_single_flight:
  assumes "single_flight sys" and "may_launch (store sys) r"
  shows "single_flight (launched (inflight sys) r)"
  using assms by (cases "snd r") (auto simp: single_flight_def launched_def may_launch_def)

lemma step_single_flight: "single_flight sys \<Longrightarrow> single_flight (step a sys)"
proof (cases a)
  case (Settle outcome e)
  assume inv: "single_flight sys"
  show ?thesis
  proof (cases "inflight sys")
    case Nil
    then show ?thesis using inv Settle by simp
  next
    case (Cons sub rest)
    then have "rest = []" "pendingFlush (store sys)" using inv by (auto simp: single_flight_def)
    then show ?thesis using Settle Cons
      by (simp add: single_flight_def launched_def settle_pending_none settle_not_pending)
  qed
qed (simp_all add: launched_single_flight flushEvents_may_launch addEventToQueue_may_launch
      trackEvent_may_launch updateNetworkStatus_may_launch,
     simp_all add: single_flight_def other_pending read_isTrackingAllowed_keeps)

lemma run_single_flight: "single_flight sys \<Longrightarrow> single_flight (run acts sys)"
  by (induction acts rule: rev_induct) (simp_all add: run_snoc step_single_flight, simp add: run_def)

lemma initial_single_flight: "single_flight (initial_system ls)"
  by (simp add: initial_system_def initial_state_def single_flight_def)

lemma initial_size_ok: "size_ok (store (initial_system ls))"
  by (simp add: initial_system_def initial_state_def size_ok_def)

section \<open>The claims\<close>

subsection \<open>The circular buffer and the queue limit\<close>

text \<open>
  C9. A buffer at capacity under the \<open>error\<close> strategy: \<open>push\<close> throws the overflow
  error and leaves the buffer as it was, with its contents, size, head, tail and overflow
  counter. The throw is the first thing the call does.
\<close>

theorem C9_reject_leaves_buffer_unchanged:
  assumes "cb_size b = cb_capacity b" and "cb_overflowStrategy b = Error"
  shows "push item b = (Inl BufferOverflow, b)"
  using assms by (simp add: push_def)

theorem C9_reject_leaves_buffer_unchanged_witness:
  "cb_size full_strict_buffer = cb_capacity full_strict_buffer
   \<and> cb_overflowStrategy full_strict_buffer = Error
   \<and> push 3 full_strict_buffer = (Inl BufferOverflow, full_strict_buffer)
   \<and> getItems (snd (push 3 full_strict_buffer)) = [1, 2]"
proof -
  have full: "cb_size full_strict_buffer = cb_capacity full_strict_buffer" by code_simp
  have strict: "cb_overflowStrategy full_strict_buffer = Error" by code_simp
  have items: "getItems full_strict_buffer = [1, 2]" by code_simp
  show ?thesis
    using C9_reject_leaves_buffer_unchanged[OF full strict, of 3] full strict items by simp
qed

text \<open>
  C4, as the claim states it, fails for the store's queue: \<open>addEventToQueue\<close>
  increments \<open>bufferInfo.overflowCount\<close> each time it discards the oldest events. With
  \<open>maxQueueSize = 3\<close>, tracking A, B, C, D leaves B, C, D and an overflow count of 1,
  not 0.
\<close>

theorem C4_engine_counts_evictions_counterexample:
  "map ev_id (events (store four_tracked_cap3)) = [Some ''B'', Some ''C'', Some ''D'']
   \<and> maxQueueSize (config (store four_tracked_cap3)) = Some 3
   \<and> bi_overflowCount (bufferInfo (store ready_cap3)) = 0
   \<and> bi_overflowCount (bufferInfo (store four_tracked_cap3)) = 1"
  by code_simp

text \<open>
  C4, amended. For a positive capacity \<open>c\<close>: a \<open>discard-oldest\<close> buffer that has been
  pushed the items \<open>xs\<close> holds the last \<open>c\<close> of them in push order (all of them when
  there are fewer), and its overflow counter is still 0. A store with
  \<open>maxQueueSize = c\<close> and an empty queue that has been handed the events \<open>evs\<close>
  holds the last \<open>c\<close> of them in push order, and its overflow counter has grown by one
  for every push that found the queue full.
\<close>

theorem C4_discard_oldest_keeps_last:
  assumes "0 < c"
  shows "getItems (push_all xs (new_CircularBuffer
            \<lparr> opt_capacity = c, opt_overflowStrategy = DiscardOldest \<rparr>))
           = drop (length xs - c) xs
       \<and> cb_overflowCount (push_all xs (new_CircularBuffer
            \<lparr> opt_capacity = c, opt_overflowStrategy = DiscardOldest \<rparr>)) = 0
       \<and> (maxQueueSize (config s) = Some (int c) \<and> events s = [] \<longrightarrow>
            events (enqueue_all evs s) = drop (length evs - c) evs
          \<and> bi_overflowCount (bufferInfo (enqueue_all evs s))
              = bi_overflowCount (bufferInfo s) + (length evs - c))"
proof -
  let ?b = "push_all xs (new_CircularBuffer \<lparr> opt_capacity = c, opt_overflowStrategy = DiscardOldest \<rparr>)"
  have "represents ?b (drop (length xs - c) xs)" and "cb_overflowCount ?b = 0"
    using push_all_oldest[OF assms, of xs] by simp_all
  moreover have "events (enqueue_all evs s) = drop (length evs - c) evs
          \<and> bi_overflowCount (bufferInfo (enqueue_all evs s))
              = bi_overflowCount (bufferInfo s) + (length evs - c)"
    if "maxQueueSize (config s) = Some (int c)" "events s = []"
    using enqueue_all_trims[OF that(1) assms, of evs] that(2) by simp
  ultimately show ?thesis by (simp add: getItems_represents)
qed

theorem C4_discard_oldest_keeps_last_witness:
  "(0::nat) < 3
   \<and> getItems (push_all [''A'', ''B'', ''C'', ''D''] (new_CircularBuffer
        \<lparr> opt_capacity = 3, opt_overflowStrategy = DiscardOldest \<rparr>)) = [''B'', ''C'', ''D'']
   \<and> cb_overflowCount (push_all [''A'', ''B'', ''C'', ''D''] (new_CircularBuffer
        \<lparr> opt_capacity = 3, opt_overflowStrategy = DiscardOldest \<rparr>)) = 0
   \<and> maxQueueSize (config (store ready_cap3)) = Some 3
   \<and> events (store ready_cap3) = []
   \<and> events (enqueue_all four_events (store ready_cap3)) = drop 1 four_events
   \<and> bi_overflowCount (bufferInfo (enqueue_all four_events (store ready_cap3))) = 1"
proof -
  have pos: "(0::nat) < 3" by simp
  have cap: "maxQueueSize (config (store ready_cap3)) = Some (int 3)" by code_simp
  have empty: "events (store ready_cap3) = []" by code_simp
  have zero: "bi_overflowCount (bufferInfo (store ready_cap3)) = 0" by code_simp
  have len: "length four_events = 4" by (simp add: four_events_def)
  show ?thesis
    using C4_discard_oldest_keeps_last[OF pos, of "[''A'', ''B'', ''C'', ''D'']" "store ready_cap3"
        four_events]
      cap empty zero len
    by simp
qed

subsection \<open>Flushing\<close>

text \<open>
  C1, as the claim states it, fails when an event pushed while the request is outstanding
  carries an id that is also in the snapshot: the removal goes by id, and \<open>trackEvent\<close>
  lets the partial event's own id override the generated one. A caller that tracks
  \<open>level-1\<close>, \<open>level-2\<close>, \<open>level-3\<close>, starts a flush and tracks \<open>level-1\<close> again
  before the request succeeds is left with an empty queue, not with the fourth event.
\<close>

theorem C1_later_event_with_sent_id_counterexample:
  "queue_ids fourth_colliding
     = [Some ''level-1'', Some ''level-2'', Some ''level-3'', Some ''level-1'']
   \<and> inflight_ids fourth_colliding = [[Some ''level-1'', Some ''level-2'', Some ''level-3'']]
   \<and> queue_ids (step (Settle (Response 200) (browser ''x'' 5)) fourth_colliding) = []"
  by code_simp

text \<open>
  C1, amended. When the request of a flush succeeds (a status from 200 to 299), the queue
  keeps exactly the events whose id is not the id of an event of the snapshot, in their
  order; \<open>lastFlushTime\<close> is recorded and the persisted queue is removed. In particular,
  when the queue is the snapshot followed by events pushed later and none of these has an
  id that appears in the snapshot, exactly the later events remain.
\<close>

theorem C1_success_removes_sent_ids:
  assumes "response_ok status"
  shows "events (fst (flushEvents_settle (Response status) eventsToSend e s))
           = filter (\<lambda>ev. ev_id ev \<notin> ev_id ` set eventsToSend) (events s)
       \<and> lastFlushTime (fst (flushEvents_settle (Response status) eventsToSend e s)) = Some (now e)
       \<and> localStorage (fst (flushEvents_settle (Response status) eventsToSend e s)) STORAGE_KEY_EVENTS = None
       \<and> (events s = eventsToSend @ later
            \<and> (\<forall>ev \<in> set later. ev_id ev \<notin> ev_id ` set eventsToSend)
          \<longrightarrow> events (fst (flushEvents_settle (Response status) eventsToSend e s)) = later)"
proof -
  let ?r = "fst (flushEvents_settle (Response status) eventsToSend e s)"
  let ?fresh = "\<lambda>ev. ev_id ev \<notin> ev_id ` set eventsToSend"
  have ok: "failure_message (Response status) = None"
    using assms by (simp add: failure_message_def)
  have ev: "events ?r = filter ?fresh (events s)"
    by (simp add: settle_success[OF ok] removeItem_def some_same_id)
  have tm: "lastFlushTime ?r = Some (now e)"
    by (simp add: settle_success[OF ok] removeItem_def)
  have ls: "localStorage ?r STORAGE_KEY_EVENTS = None"
    by (simp add: settle_success[OF ok] removeItem_def)
  have "events ?r = later"
    if "events s = eventsToSend @ later \<and> (\<forall>ev \<in> set later. ?fresh ev)"
  proof -
    have "filter ?fresh eventsToSend = []"
      by (simp add: filter_empty_conv)
    moreover have "filter ?fresh later = later"
      using that by (simp add: filter_id_conv)
    ultimately have "filter ?fresh (eventsToSend @ later) = later" by simp
    then show ?thesis using ev that by simp
  qed
  then show ?thesis using ev tm ls by blast
qed

theorem C1_success_removes_sent_ids_witness:
  "response_ok 200
   \<and> queue_ids three_tracked = [Some ''a'', Some ''b'', Some ''c'']
   \<and> inflight_ids three_tracked = [[Some ''a'', Some ''b'', Some ''c'']]
   \<and> events (store fourth_tracked) = events (store three_tracked) @ [last (events (store fourth_tracked))]
   \<and> ev_id (last (events (store fourth_tracked))) = Some ''d''
   \<and> events (fst (flushEvents_settle (Response 200) (events (store three_tracked)) (browser ''x'' 5)
         (store fourth_tracked))) = [last (events (store fourth_tracked))]
   \<and> lastFlushTime (fst (flushEvents_settle (Response 200) (events (store three_tracked))
         (browser ''x'' 5) (store fourth_tracked))) = Some 5
   \<and> queue_ids (step (Settle (Response 200) (browser ''x'' 5)) fourth_tracked) = [Some ''d'']"
proof -
  have ok: "response_ok 200" by (simp add: response_ok_def)
  have q: "queue_ids three_tracked = [Some ''a'', Some ''b'', Some ''c'']" by code_simp
  have f: "inflight_ids three_tracked = [[Some ''a'', Some ''b'', Some ''c'']]" by code_simp
  have app: "events (store fourth_tracked)
       = events (store three_tracked) @ [last (events (store fourth_tracked))]" by code_simp
  have d: "ev_id (last (events (store fourth_tracked))) = Some ''d''" by code_simp
  have fresh: "\<forall>ev \<in> set [last (events (store fourth_tracked))].
       ev_id ev \<notin> ev_id ` set (events (store three_tracked))"
    using q d by (simp add: queue_ids_def flip: set_map)
  have t: "now (browser ''x'' 5) = 5" by (simp add: browser_def)
  have sys: "queue_ids (step (Settle (Response 200) (browser ''x'' 5)) fourth_tracked) = [Some ''d'']"
    by code_simp
  note main = C1_success_removes_sent_ids[OF ok, of "events (store three_tracked)"
      "browser ''x'' 5" "store fourth_tracked" "[last (events (store fourth_tracked))]"]
  have kept: "events (fst (flushEvents_settle (Response 200) (events (store three_tracked))
         (browser ''x'' 5) (store fourth_tracked))) = [last (events (store fourth_tracked))]"
    using main app fresh by blast
  have time: "lastFlushTime (fst (flushEvents_settle (Response 200) (events (store three_tracked))
         (browser ''x'' 5) (store fourth_tracked))) = Some 5"
    using main t by simp
  show ?thesis using ok q f app d kept time sys by blast
qed

text \<open>
  C2. A call of \<open>flushEvents\<close> while \<open>pendingFlush\<close> is set, while the queue is empty
  or while the network is offline hands nothing to \<open>fetch\<close> and leaves the state as it
  is; so a second call while the first request is outstanding is such a call. When the
  request ends, with any outcome, \<open>pendingFlush\<close> is cleared. In every run of the store
  from its initial state at most one request is outstanding, and \<open>pendingFlush\<close> is set
  exactly while one is.
\<close>

theorem C2_at_most_one_flush_in_flight:
  "(pendingFlush s \<or> events s = [] \<or> \<not> isOnline (networkStatus s) \<longrightarrow> flushEvents s = (s, None))
   \<and> (snd (flushEvents s) \<noteq> None \<longrightarrow>
         flushEvents (fst (flushEvents s)) = (fst (flushEvents s), None))
   \<and> \<not> pendingFlush (fst (flushEvents_settle outcome eventsToSend e s))
   \<and> length (inflight (run acts (initial_system ls))) \<le> 1
   \<and> (pendingFlush (store (run acts (initial_system ls)))
        \<longleftrightarrow> inflight (run acts (initial_system ls)) \<noteq> [])"
proof -
  have noop: "pendingFlush s \<or> events s = [] \<or> \<not> isOnline (networkStatus s) \<longrightarrow> flushEvents s = (s, None)"
    using flushEvents_noop by blast
  have second: "snd (flushEvents s) \<noteq> None \<longrightarrow>
         flushEvents (fst (flushEvents s)) = (fst (flushEvents s), None)"
    using flushEvents_pending(1,2) by blast
  have "single_flight (run acts (initial_system ls))"
    using run_single_flight[OF initial_single_flight] .
  then show ?thesis
    using noop second settle_not_pending[of outcome eventsToSend e s]
    unfolding single_flight_def by blast
qed

theorem C2_at_most_one_flush_in_flight_witness:
  "snd (flushEvents (store three_queued)) \<noteq> None
   \<and> flushEvents (fst (flushEvents (store three_queued)))
       = (fst (flushEvents (store three_queued)), None)
   \<and> pendingFlush (store three_tracked)
   \<and> inflight_ids three_tracked = [[Some ''a'', Some ''b'', Some ''c'']]
   \<and> flushEvents (store three_tracked) = (store three_tracked, None)
   \<and> inflight_ids (step FlushEvents three_tracked) = [[Some ''a'', Some ''b'', Some ''c'']]
   \<and> \<not> pendingFlush (fst (flushEvents_settle (NetworkError ''down'') (events (store three_tracked))
          (browser ''e'' 9) (store three_tracked)))
   \<and> \<not> pendingFlush (fst (flushEvents_settle (Response 200) (events (store three_tracked))
          (browser ''e'' 9) (store three_tracked)))
   \<and> inflight_ids (step (Settle (NetworkError ''down'') (browser ''e'' 9)) three_tracked) = []
   \<and> length (inflight (run session_actions (initial_system Map.empty))) \<le> 1"
proof -
  have l: "snd (flushEvents (store three_queued)) \<noteq> None" by code_simp
  have p: "pendingFlush (store three_tracked)" by code_simp
  have f: "inflight_ids three_tracked = [[Some ''a'', Some ''b'', Some ''c'']]" by code_simp
  have g: "inflight_ids (step FlushEvents three_tracked) = [[Some ''a'', Some ''b'', Some ''c'']]"
    by code_simp
  have h: "inflight_ids (step (Settle (NetworkError ''down'') (browser ''e'' 9)) three_tracked) = []"
    by code_simp
  note first = C2_at_most_one_flush_in_flight[of "store three_queued" "Response 200"
      "events (store three_tracked)" "browser ''e'' 9" session_actions Map.empty]
  note failing = C2_at_most_one_flush_in_flight[of "store three_tracked" "NetworkError ''down''"
      "events (store three_tracked)" "browser ''e'' 9" session_actions Map.empty]
  note succeeding = C2_at_most_one_flush_in_flight[of "store three_tracked" "Response 200"
      "events (store three_tracked)" "browser ''e'' 9" session_actions Map.empty]
  show ?thesis using first failing succeeding l p f g h by blast
qed

text \<open>
  C3, as the claim states it, fails when the queue already holds \<open>maxQueueSize\<close> events
  and error tracking is on: the synthetic error event is pushed like any other event, and
  the push discards the oldest event. With \<open>maxQueueSize = 2\<close> and the queue a, b, a
  failed flush leaves b and the error event.
\<close>

theorem C3_full_queue_loses_oldest_counterexample:
  "queue_ids two_tracked_cap2 = [Some ''a'', Some ''b'']
   \<and> inflight_ids two_tracked_cap2 = [[Some ''a'', Some ''b'']]
   \<and> queue_ids (step (Settle (NetworkError ''down'') (browser ''c'' 3)) two_tracked_cap2)
       = [Some ''b'', Some ''c'']
   \<and> failedSubmissions (store (step (Settle (NetworkError ''down'') (browser ''c'' 3)) two_tracked_cap2)) = 1"
  by code_simp

text \<open>
  C3, amended. When the request of a flush fails (a rejected request or a status outside
  200 to 299): \<open>failedSubmissions\<close> grows by exactly 1, \<open>pendingFlush\<close> is cleared and
  the call ends normally. With error tracking off, or when the checks of \<open>trackEvent\<close>
  (the getter \<open>isTrackingAllowed\<close>, with the value it keeps, and sampling) turn the error
  event away, the queue is unchanged. Otherwise one event, of type \<open>error\<close> unless a transformer changes it, goes
  through \<open>trackEvent\<close> and is appended to the queue; no other event is removed, except
  that the queue limit of that push applies as for any push.
\<close>

theorem C3_failed_flush:
  assumes "failure_message outcome = Some msg"
  shows "failedSubmissions (fst (flushEvents_settle outcome eventsToSend e s)) = failedSubmissions s + 1
       \<and> \<not> pendingFlush (fst (flushEvents_settle outcome eventsToSend e s))
       \<and> (truthy (trackErrors (config s)) \<longrightarrow>
            flushEvents_settle outcome eventsToSend e s =
              ((fst (trackEvent e (error_event msg) (s\<lparr> failedSubmissions := failedSubmissions s + 1 \<rparr>)))
                  \<lparr> pendingFlush := False \<rparr>,
               snd (trackEvent e (error_event msg) (s\<lparr> failedSubmissions := failedSubmissions s + 1 \<rparr>))))
       \<and> (\<not> truthy (trackErrors (config s)) \<or> \<not> admitted e s \<longrightarrow>
            events (fst (flushEvents_settle outcome eventsToSend e s)) = events s)
       \<and> (truthy (trackErrors (config s)) \<and> admitted e s \<longrightarrow>
            events (fst (flushEvents_settle outcome eventsToSend e s))
              = trimmed (config s) (events s @ [queued_event e (config s) (error_event msg)]))
       \<and> (truthy (trackErrors (config s)) \<and> admitted e s
            \<and> \<not> over_limit (maxQueueSize (config s)) (Suc (length (events s))) \<longrightarrow>
            events (fst (flushEvents_settle outcome eventsToSend e s))
              = events s @ [queued_event e (config s) (error_event msg)])
       \<and> (eventTransformer (config s) = None \<longrightarrow>
            ev_type (queued_event e (config s) (error_event msg)) = Some ''error'')"
proof -
  let ?s1 = "s\<lparr> failedSubmissions := failedSubmissions s + 1 \<rparr>"
  let ?r = "flushEvents_settle outcome eventsToSend e s"
  let ?q = "queued_event e (config s) (error_event msg)"
  note eq = settle_failure[OF assms, of eventsToSend e s]
  have count: "failedSubmissions (fst ?r) = failedSubmissions s + 1"
    by (simp add: eq trackEvent_failed)
  have flag: "\<not> pendingFlush (fst ?r)" by (rule settle_not_pending)
  have route: "truthy (trackErrors (config s)) \<longrightarrow>
            ?r = ((fst (trackEvent e (error_event msg) ?s1))\<lparr> pendingFlush := False \<rparr>,
                  snd (trackEvent e (error_event msg) ?s1))"
    by (simp add: eq)
  have same: "\<not> truthy (trackErrors (config s)) \<or> \<not> admitted e s \<longrightarrow> events (fst ?r) = events s"
    by (auto simp: eq trackEvent_cases admitted_failed checked_keeps read_isTrackingAllowed_keeps)
  have pushed: "truthy (trackErrors (config s)) \<and> admitted e s \<longrightarrow>
            events (fst ?r) = trimmed (config s) (events s @ [?q])"
    by (simp add: eq trackEvent_cases admitted_failed addEventToQueue_events checked_keeps)
  have room: "truthy (trackErrors (config s)) \<and> admitted e s
            \<and> \<not> over_limit (maxQueueSize (config s)) (Suc (length (events s))) \<longrightarrow>
            events (fst ?r) = events s @ [?q]"
    using pushed trimmed_keeps_when_room[of "config s" "events s @ [?q]"] by simp
  have kind: "eventTransformer (config s) = None \<longrightarrow> ev_type ?q = Some ''error''"
    by (simp add: queued_event_def fullEvent_def error_event_def spread_def Let_def)
  show ?thesis using count flag route same pushed room kind by blast
qed

theorem C3_failed_flush_witness:
  "failure_message (Response 503) = Some ''API responded with status 503''
   \<and> truthy (trackErrors (config (store three_tracked)))
   \<and> admitted (browser ''e'' 9) (store three_tracked)
   \<and> \<not> over_limit (maxQueueSize (config (store three_tracked)))
         (Suc (length (events (store three_tracked))))
   \<and> eventTransformer (config (store three_tracked)) = None
   \<and> failedSubmissions (store three_tracked) = 0
   \<and> failedSubmissions (fst (flushEvents_settle (Response 503) (events (store three_tracked))
         (browser ''e'' 9) (store three_tracked))) = 1
   \<and> events (fst (flushEvents_settle (Response 503) (events (store three_tracked))
         (browser ''e'' 9) (store three_tracked)))
       = events (store three_tracked)
         @ [queued_event (browser ''e'' 9) (config (store three_tracked))
              (error_event ''API responded with status 503'')]
   \<and> ev_type (queued_event (browser ''e'' 9) (config (store three_tracked))
         (error_event ''API responded with status 503'')) = Some ''error''
   \<and> admitted (browser_dnt ''e'' 9) (store three_tracked)
   \<and> events (fst (flushEvents_settle (Response 503) (events (store three_tracked))
         (browser_dnt ''e'' 9) (store three_tracked)))
       = events (store three_tracked)
         @ [queued_event (browser_dnt ''e'' 9) (config (store three_tracked))
              (error_event ''API responded with status 503'')]
   \<and> truthy (trackErrors (config (store half_sampled)))
   \<and> \<not> admitted (browser_unlucky ''e'' 9) (store half_sampled)
   \<and> events (fst (flushEvents_settle (Response 503) (events (store half_sampled))
         (browser_unlucky ''e'' 9) (store half_sampled))) = events (store half_sampled)"
proof -
  have msg: "failure_message (Response 503) = Some ''API responded with status 503''" by code_simp
  have te: "truthy (trackErrors (config (store three_tracked)))" by code_simp
  have ad: "admitted (browser ''e'' 9) (store three_tracked)" by code_simp
  have rm: "\<not> over_limit (maxQueueSize (config (store three_tracked)))
         (Suc (length (events (store three_tracked))))" by code_simp
  have tr: "eventTransformer (config (store three_tracked)) = None" by code_simp
  have z: "failedSubmissions (store three_tracked) = 0" by code_simp
  have late: "admitted (browser_dnt ''e'' 9) (store three_tracked)" by code_simp
  have te2: "truthy (trackErrors (config (store half_sampled)))" by code_simp
  have out: "\<not> admitted (browser_unlucky ''e'' 9) (store half_sampled)" by code_simp
  note main = C3_failed_flush[OF msg, of "events (store three_tracked)" "browser ''e'' 9"
      "store three_tracked"]
  note signal_late = C3_failed_flush[OF msg, of "events (store three_tracked)"
      "browser_dnt ''e'' 9" "store three_tracked"]
  note sampled = C3_failed_flush[OF msg, of "events (store half_sampled)"
      "browser_unlucky ''e'' 9" "store half_sampled"]
  have one: "failedSubmissions (fst (flushEvents_settle (Response 503) (events (store three_tracked))
         (browser ''e'' 9) (store three_tracked))) = 1"
    using main z by simp
  show ?thesis using main signal_late sampled msg te ad rm tr z one late te2 out by blast
qed

subsection \<open>Admission and enrichment\<close>

text \<open>
  C5, as the claim states it, fails at a draw equal to the rate: \<open>shouldSampleEvent\<close>
  compares with \<open><=\<close>, so a draw of one half under a rate of one half admits the
  event.
\<close>

theorem C5_draw_equal_to_rate_counterexample:
  "(0::real) < 1/2 \<and> (1/2::real) < 1 \<and> (0::real) \<le> 1/2
   \<and> shouldSampleEvent (1/2) (1/2) \<and> \<not> ((1/2::real) < 1/2)"
  by (simp add: shouldSampleEvent_def)

text \<open>
  C5, amended. A rate of 1 or more always admits, a rate of 0 or less always rejects, and
  for a rate strictly between 0 and 1 the event is admitted if and only if the draw is at
  most the rate. \<open>trackEvent\<close> asks \<open>shouldSampleEvent\<close> only when a rate is configured
  and is below 1; without a configured rate nothing is sampled out.
\<close>

theorem C5_sampling_decision:
  "(1 \<le> r \<longrightarrow> shouldSampleEvent r d)
   \<and> (r \<le> 0 \<longrightarrow> \<not> shouldSampleEvent r d)
   \<and> (0 < r \<and> r < 1 \<longrightarrow> (shouldSampleEvent r d \<longleftrightarrow> d \<le> r))
   \<and> (sampleRate cfg = None \<longrightarrow> \<not> sampled_out cfg d)
   \<and> (sampleRate cfg = Some r \<longrightarrow> (sampled_out cfg d \<longleftrightarrow> r < 1 \<and> \<not> shouldSampleEvent r d))"
  by (auto simp: shouldSampleEvent_def sampled_out_def)

theorem C5_sampling_decision_witness:
  "(1::real) \<le> 1 \<and> shouldSampleEvent 1 (9/10)
   \<and> (0::real) \<le> 0 \<and> \<not> shouldSampleEvent 0 0
   \<and> (0::real) < 1/2 \<and> (1/2::real) < 1
   \<and> shouldSampleEvent (1/2) (1/4) \<and> shouldSampleEvent (1/2) (1/2) \<and> \<not> shouldSampleEvent (1/2) (3/4)
   \<and> sampleRate (DEFAULT_CONFIG\<lparr> sampleRate := Some (1/2) \<rparr>) = Some (1/2)
   \<and> sampled_out (DEFAULT_CONFIG\<lparr> sampleRate := Some (1/2) \<rparr>) (3/4)
   \<and> \<not> sampled_out (DEFAULT_CONFIG\<lparr> sampleRate := Some (1/2) \<rparr>) (1/2)
   \<and> sampleRate (DEFAULT_CONFIG\<lparr> sampleRate := None \<rparr>) = None
   \<and> \<not> sampled_out (DEFAULT_CONFIG\<lparr> sampleRate := None \<rparr>) (3/4)"
  using C5_sampling_decision[of 1 "9/10" DEFAULT_CONFIG]
    C5_sampling_decision[of 0 0 DEFAULT_CONFIG]
    C5_sampling_decision[of "1/2" "1/4" "DEFAULT_CONFIG\<lparr> sampleRate := Some (1/2) \<rparr>"]
    C5_sampling_decision[of "1/2" "1/2" "DEFAULT_CONFIG\<lparr> sampleRate := Some (1/2) \<rparr>"]
    C5_sampling_decision[of "1/2" "3/4" "DEFAULT_CONFIG\<lparr> sampleRate := Some (1/2) \<rparr>"]
    C5_sampling_decision[of 0 "3/4" "DEFAULT_CONFIG\<lparr> sampleRate := None \<rparr>"]
  by simp



text \<open>
  C7, as the claim states it, fails for a partial event that carries an id: the spread of
  the partial event comes last in the object literal of \<open>trackEvent\<close> and overrides the
  generated id.
\<close>

theorem C7_partial_id_wins_counterexample:
  "uuid (browser ''fresh'' 1) = ''fresh''
   \<and> admitted (browser ''fresh'' 1) (store ready)
   \<and> map ev_id (events (fst (trackEvent (browser ''fresh'' 1) (click\<lparr> p_id := Value ''mine'' \<rparr>)
         (store ready)))) = [Some ''mine'']"
  by code_simp

text \<open>
  C7, amended. In the event \<open>trackEvent\<close> builds for an admitted partial event, the id
  is the partial event's own id when it has that property and the value
  \<open>generateUUID()\<close> returned otherwise; the type is the partial event's own type when it
  has that property and \<open>custom\<close> otherwise; \<open>gameId\<close> and \<open>playId\<close> are the partial
  event's own when it has them and the configured ones otherwise. (A property the partial
  event has with the value \<open>undefined\<close> stays \<open>undefined\<close>.) This event, or what the
  transformer makes of it, is what is enqueued, on the state the two checks leave.
\<close>

theorem C7_enrichment:
  "ev_id (fullEvent e cfg p)
     = (case p_id p of Absent \<Rightarrow> Some (uuid e) | Undefined \<Rightarrow> None | Value i \<Rightarrow> Some i)
   \<and> ev_type (fullEvent e cfg p)
     = (case p_type p of Absent \<Rightarrow> Some ''custom'' | Undefined \<Rightarrow> None | Value t \<Rightarrow> Some t)
   \<and> ev_gameId (fullEvent e cfg p)
     = (case p_gameId p of Absent \<Rightarrow> Some (gameId cfg) | Undefined \<Rightarrow> None | Value g \<Rightarrow> Some g)
   \<and> ev_playId (fullEvent e cfg p)
     = (case p_playId p of Absent \<Rightarrow> Some (playId cfg) | Undefined \<Rightarrow> None | Value g \<Rightarrow> Some g)
   \<and> (admitted e s \<longrightarrow>
        trackEvent e p s = addEventToQueue (queued_event e (config s) p) (checked e s)
        \<and> (eventTransformer (config s) = None \<longrightarrow>
              queued_event e (config s) p = fullEvent e (config s) p))"
  by (simp add: fullEvent_def Let_def spread_def or_default_def trackEvent_cases queued_event_def
      split: property.splits)

theorem C7_enrichment_witness:
  "admitted (browser ''fresh'' 1) (store ready)
   \<and> eventTransformer (config (store ready)) = None
   \<and> trackEvent (browser ''fresh'' 1) click (store ready)
       = addEventToQueue (fullEvent (browser ''fresh'' 1) (config (store ready)) click)
           (checked (browser ''fresh'' 1) (store ready))
   \<and> ev_id (fullEvent (browser ''fresh'' 1) (config (store ready)) click) = Some ''fresh''
   \<and> ev_type (fullEvent (browser ''fresh'' 1) (config (store ready)) click) = Some ''click''
   \<and> ev_gameId (fullEvent (browser ''fresh'' 1) (config (store ready)) click) = Some ''game''
   \<and> ev_playId (fullEvent (browser ''fresh'' 1) (config (store ready)) click) = Some ''play''"
proof -
  have adm: "admitted (browser ''fresh'' 1) (store ready)" by code_simp
  have tr: "eventTransformer (config (store ready)) = None" by code_simp
  have g: "gameId (config (store ready)) = ''game''" by code_simp
  have pl: "playId (config (store ready)) = ''play''" by code_simp
  note main = C7_enrichment[of "browser ''fresh'' 1" "config (store ready)" click "store ready"]
  show ?thesis using main adm tr g pl by (simp add: click_def browser_def)
qed

subsection \<open>Consent and the size invariant\<close>

text \<open>
  C8. \<open>setConsent(false)\<close> empties the queue, so that \<open>eventCount\<close> is 0, and removes
  both storage entries, at once; a write to storage that was still waiting for an idle
  moment does not bring the events back.
\<close>

theorem C8_revoking_consent_erases:
  "eventCount (setConsent False s) = 0
   \<and> events (setConsent False s) = []
   \<and> bi_size (bufferInfo (setConsent False s)) = 0
   \<and> localStorage (setConsent False s) STORAGE_KEY_EVENTS = None
   \<and> localStorage (setConsent False s) STORAGE_KEY_CONFIG = None
   \<and> \<not> hasConsent (setConsent False s)
   \<and> localStorage (saveEventsToStorage ok (setConsent False s)) STORAGE_KEY_EVENTS = None"
  by (simp add: setConsent_def assign_hasConsent_def clearEvents_def removeItem_def
      eventCount_def Let_def saveEventsToStorage_def)

theorem C8_revoking_consent_erases_witness:
  "eventCount (store tracked_and_saved) = 2
   \<and> localStorage (store tracked_and_saved) STORAGE_KEY_EVENTS
       = Some (StoredEvents (events (store tracked_and_saved)))
   \<and> eventCount (store (step (SetConsent False) tracked_and_saved)) = 0
   \<and> localStorage (store (step (SetConsent False) tracked_and_saved)) STORAGE_KEY_EVENTS = None
   \<and> localStorage (store (step (SetConsent False) tracked_and_saved)) STORAGE_KEY_CONFIG = None"
proof -
  have before: "eventCount (store tracked_and_saved) = 2" by code_simp
  have saved: "localStorage (store tracked_and_saved) STORAGE_KEY_EVENTS
       = Some (StoredEvents (events (store tracked_and_saved)))" by code_simp
  show ?thesis
    using C8_revoking_consent_erases[of "store tracked_and_saved" True] before saved by simp
qed

text \<open>
  C10. In every state the store reaches from its initial state, by any sequence of its
  actions and whatever the surroundings do, \<open>bufferInfo.size\<close> is the length of the
  queue.
\<close>

theorem C10_size_tracks_queue_length:
  "bi_size (bufferInfo (store (run acts (initial_system ls))))
     = length (events (store (run acts (initial_system ls))))"
  using run_size_ok[OF initial_size_ok, of acts ls] by (simp add: size_ok_def)

theorem C10_size_tracks_queue_length_witness:
  "length (events (store (run (take 11 session_actions) (initial_system Map.empty)))) = 5
   \<and> bi_size (bufferInfo (store (run (take 11 session_actions) (initial_system Map.empty)))) = 5
   \<and> length (events (store (run session_actions (initial_system Map.empty)))) = 1
   \<and> bi_size (bufferInfo (store (run session_actions (initial_system Map.empty)))) = 1"
proof -
  have five: "length (events (store (run (take 11 session_actions) (initial_system Map.empty)))) = 5"
    by code_simp
  have one: "length (events (store (run session_actions (initial_system Map.empty)))) = 1"
    by code_simp
  show ?thesis
    using C10_size_tracks_queue_length[of "take 11 session_actions" Map.empty]
      C10_size_tracks_queue_length[of session_actions Map.empty] five one
    by simp
qed

end
